theory Spec2Isabelle
  imports Complex_Main "HOL-Library.Monad_Syntax"
begin

section \<open>Data model of \<open>types/matrix.h\<close>: owning matrix and read-only view\<close>

text \<open>
  \<open>details::Types::IndexType\<close> is declared in \<open>types_details.h\<close>. The code compares
  segment bounds with \<open>0\<close>, passes \<open>{-1, -1}\<close> as a sentinel and clamps sizes with
  \<open>std::max(IndexType{0}, size)\<close>, so the type is a signed integer; it is modelled by
  \<open>int\<close>. \<open>Segment\<close> has the fields \<open>begin\<close> and \<open>end\<close> and \<open>MatrixState\<close> the fields
  \<open>is_transposed\<close> and \<open>is_conjugated\<close>.
\<close>

type_synonym IndexType = int

record Segment =
  seg_begin :: IndexType
  seg_end :: IndexType

record MatrixState =
  is_transposed :: bool
  is_conjugated :: bool

text \<open>
  The element capability (\<open>utils::FloatOrComplex\<close>): whether the element type is a
  complex type (\<open>utils::details::IsFloatComplexT<T>::value\<close>), \<open>std::conj\<close>, and the two
  tolerance predicates \<open>utils::IsZeroFloating\<close> and \<open>utils::IsEqualFloating\<close>. The
  predicates live in \<open>utils/is_equal_floating.h\<close>; they are parameters of every
  function that calls them.
\<close>

record 'a FloatOrComplex =
  IsFloatComplexT :: bool
  std_conj :: "'a \<Rightarrow> 'a"
  IsZeroFloating :: "'a \<Rightarrow> bool"
  IsEqualFloating :: "'a \<Rightarrow> 'a \<Rightarrow> bool"

text \<open>
  Modelled from the spec: the tolerance predicates of \<open>utils/is_equal_floating.h\<close> are
  not part of the sources. For closed examples over a real scalar type they are taken
  as the spec describes them (section 6: a tolerance comparison and a tolerance zero
  test), with the tolerance \<open>eps\<close>; a real scalar type is not complex and is not
  conjugated.
\<close>

definition real_elements :: "real \<Rightarrow> real FloatOrComplex" where
  "real_elements eps =
     \<lparr>IsFloatComplexT = False, std_conj = (\<lambda>x. x),
      IsZeroFloating = (\<lambda>a. \<bar>a\<bar> < eps), IsEqualFloating = (\<lambda>a b. \<bar>a - b\<bar> < eps)\<rparr>"

text \<open>
  \<open>class Matrix\<close> (the definition with the member \<open>cols_\<close>): the members \<open>cols_\<close> and
  \<open>buffer_\<close> (row-major) are the fields \<open>m_cols\<close> and \<open>m_buffer\<close>.
\<close>

record 'a Matrix =
  m_cols :: IndexType
  m_buffer :: "'a list"

text \<open>\<open>Matrix() = default\<close>.\<close>

definition Matrix_default :: "'a Matrix" where
  "Matrix_default = \<lparr>m_cols = 0, m_buffer = []\<rparr>"

definition CorrectSize :: "IndexType \<Rightarrow> IndexType" where
  "CorrectSize sz = max 0 sz"

text \<open>\<open>Matrix(IndexType row_cnt, IndexType col_cnt, T value = T{0})\<close>.\<close>

definition Matrix_new :: "IndexType \<Rightarrow> IndexType \<Rightarrow> 'a \<Rightarrow> 'a Matrix" where
  "Matrix_new row_cnt col_cnt v =
     (let c = CorrectSize col_cnt;
          buf = replicate (nat (c * CorrectSize row_cnt)) v
      in \<lparr>m_cols = (if row_cnt = 0 then 0 else c), m_buffer = buf\<rparr>)"

text \<open>
  \<open>Matrix(std::initializer_list<std::initializer_list<T>> list)\<close>. A row of another
  length fails the assertion; \<open>list.begin()->size()\<close> of an empty list is undefined.
\<close>

definition Matrix_of_rows :: "'a list list \<Rightarrow> 'a Matrix option" where
  "Matrix_of_rows list =
     (case list of
        [] \<Rightarrow> None
      | first # _ \<Rightarrow>
          if list_all (\<lambda>sublist. length sublist = length first) list
          then Some \<lparr>m_cols = int (length first), m_buffer = concat list\<rparr>
          else None)"

text \<open>
  \<open>Rows()\<close> is \<open>(cols_ == 0) ? 0 : buffer_.size() / cols_\<close>. Every constructor stores a
  clamped, non-negative \<open>cols_\<close>.
\<close>

definition Rows :: "'a Matrix \<Rightarrow> IndexType" where
  "Rows M = (if m_cols M = 0 then 0 else int (length (m_buffer M)) div m_cols M)"

definition Columns :: "'a Matrix \<Rightarrow> IndexType" where
  "Columns M = m_cols M"

text \<open>
  \<open>T operator()(row_idx, col_idx) const\<close>: the assertion compares the linear index with
  \<open>buffer_.size()\<close> as an unsigned number, so a negative index fails it as well. A failed
  assertion is \<open>None\<close>.
\<close>

definition Matrix_at :: "'a Matrix \<Rightarrow> IndexType \<Rightarrow> IndexType \<Rightarrow> 'a option" where
  "Matrix_at M row_idx col_idx =
     (let k = Columns M * row_idx + col_idx
      in if 0 \<le> k \<and> k < int (length (m_buffer M)) then Some (m_buffer M ! nat k) else None)"

text \<open>\<open>T &operator()(row_idx, col_idx)\<close> followed by an assignment through the reference.\<close>

definition Matrix_set :: "'a Matrix \<Rightarrow> IndexType \<Rightarrow> IndexType \<Rightarrow> 'a \<Rightarrow> 'a Matrix option" where
  "Matrix_set M row_idx col_idx v =
     (let k = Columns M * row_idx + col_idx
      in if 0 \<le> k \<and> k < int (length (m_buffer M))
         then Some (M\<lparr>m_buffer := (m_buffer M)[nat k := v]\<rparr>) else None)"

text \<open>\<open>operator==(const Matrix &, const Matrix &)\<close>: \<open>lhs.buffer_ == rhs.buffer_\<close>.\<close>

definition Matrix_eq :: "'a Matrix \<Rightarrow> 'a Matrix \<Rightarrow> bool" where
  "Matrix_eq lhs rhs = (m_buffer lhs = m_buffer rhs)"

subsection \<open>\<open>ConstMatrixView\<close>\<close>

text \<open>
  The view holds a pointer to the matrix. No function modelled here writes through a
  view, so the view carries the matrix value it points to. The members \<open>ptr_\<close>,
  \<open>row_\<close>, \<open>column_\<close> and \<open>state_\<close> are the fields \<open>v_ptr\<close>, \<open>v_row\<close>, \<open>v_column\<close>
  and \<open>v_state\<close>.
\<close>

record 'a ConstMatrixView =
  v_ptr :: "'a Matrix"
  v_row :: Segment
  v_column :: Segment
  v_state :: MatrixState

text \<open>\<open>MakeSegment\<close>: the two assignments in the order of the source.\<close>

definition MakeSegment :: "Segment \<Rightarrow> IndexType \<Rightarrow> Segment" where
  "MakeSegment seg max_value =
     (let seg1 = (if seg_end seg \<le> 0 \<or> seg_end seg > max_value
                  then seg\<lparr>seg_end := max_value\<rparr> else seg);
          seg2 = (if seg_begin seg1 \<ge> seg_end seg1 \<or> seg_begin seg1 \<ge> max_value
                     \<or> seg_begin seg1 < 0
                  then seg1\<lparr>seg_begin := 0\<rparr> else seg1)
      in seg2)"

text \<open>The constructor \<open>ConstMatrixView(matrix, row, col, state)\<close>.\<close>

definition ConstMatrixView_new ::
  "'a Matrix \<Rightarrow> Segment \<Rightarrow> Segment \<Rightarrow> MatrixState \<Rightarrow> 'a ConstMatrixView" where
  "ConstMatrixView_new matrix row col state =
     \<lparr>v_ptr = matrix,
      v_row = MakeSegment row (if is_transposed state then Columns matrix else Rows matrix),
      v_column = MakeSegment col (if is_transposed state then Rows matrix else Columns matrix),
      v_state = state\<rparr>"

text \<open>\<open>Matrix::View() const\<close>: the constructor with its default arguments.\<close>

definition View :: "'a Matrix \<Rightarrow> 'a ConstMatrixView" where
  "View M = ConstMatrixView_new M \<lparr>seg_begin = -1, seg_end = -1\<rparr>
              \<lparr>seg_begin = -1, seg_end = -1\<rparr> \<lparr>is_transposed = False, is_conjugated = False\<rparr>"

definition vRows :: "'a ConstMatrixView \<Rightarrow> IndexType" where
  "vRows V = seg_end (v_row V) - seg_begin (v_row V)"

definition vColumns :: "'a ConstMatrixView \<Rightarrow> IndexType" where
  "vColumns V = seg_end (v_column V) - seg_begin (v_column V)"

text \<open>
  \<open>ConstMatrixView::operator()(row_idx, col_idx)\<close>, with the \<open>if constexpr\<close> on the
  element type as a test of \<open>IsFloatComplexT\<close>.
\<close>

definition ConstMatrixView_at ::
  "'a FloatOrComplex \<Rightarrow> 'a ConstMatrixView \<Rightarrow> IndexType \<Rightarrow> IndexType \<Rightarrow> 'a option" where
  "ConstMatrixView_at E V row_idx col_idx =
     (let M = v_ptr V; rb = seg_begin (v_row V); cb = seg_begin (v_column V);
          t = is_transposed (v_state V); c = is_conjugated (v_state V)
      in if IsFloatComplexT E then
           (if t \<and> c then map_option (std_conj E) (Matrix_at M (rb + col_idx) (cb + row_idx))
            else if t then Matrix_at M (rb + col_idx) (cb + row_idx)
            else if c then map_option (std_conj E) (Matrix_at M (rb + row_idx) (cb + col_idx))
            else Matrix_at M (rb + row_idx) (cb + col_idx))
         else
           (if t then Matrix_at M (rb + col_idx) (cb + row_idx)
            else Matrix_at M (rb + row_idx) (cb + col_idx)))"

text \<open>\<open>Matrix::Transposed(const ConstMatrixView &)\<close> and \<open>Matrix::Conjugated(const ConstMatrixView &)\<close>.\<close>

definition Transposed :: "'a ConstMatrixView \<Rightarrow> 'a ConstMatrixView" where
  "Transposed rhs =
     ConstMatrixView_new (v_ptr rhs) (v_column rhs) (v_row rhs)
       \<lparr>is_transposed = \<not> is_transposed (v_state rhs),
        is_conjugated = is_conjugated (v_state rhs)\<rparr>"

definition Conjugated :: "'a ConstMatrixView \<Rightarrow> 'a ConstMatrixView" where
  "Conjugated rhs =
     ConstMatrixView_new (v_ptr rhs) (v_column rhs) (v_row rhs)
       \<lparr>is_transposed = \<not> is_transposed (v_state rhs),
        is_conjugated = \<not> is_conjugated (v_state rhs)\<rparr>"

text \<open>\<open>ConstMatrixView::GetRow\<close>; the view of this model always points to a matrix.\<close>

definition GetRow :: "'a ConstMatrixView \<Rightarrow> IndexType \<Rightarrow> 'a ConstMatrixView option" where
  "GetRow V index =
     (if index < vRows V
      then Some (ConstMatrixView_new (v_ptr V)
                   \<lparr>seg_begin = seg_begin (v_row V) + index,
                    seg_end = seg_begin (v_row V) + index + 1\<rparr>
                   \<lparr>seg_begin = seg_begin (v_column V), seg_end = seg_end (v_column V)\<rparr>
                   (v_state V))
      else None)"

text \<open>
  \<open>ConstMatrixView::ApplyToEach(ConstFunctionIndexes)\<close>: the two nested loops visit the
  index pairs in row-major order. The callback updates the variables it captured by
  reference; they are the state \<open>s\<close>, and a failed assertion inside the callback or in
  the element read is \<open>None\<close>.
\<close>

definition indexes :: "IndexType \<Rightarrow> IndexType \<Rightarrow> (IndexType \<times> IndexType) list" where
  "indexes r c = List.product (map int [0..<nat r]) (map int [0..<nat c])"

fun ApplyToEach_loop ::
  "'a FloatOrComplex \<Rightarrow> 'a ConstMatrixView \<Rightarrow> ('a \<Rightarrow> IndexType \<Rightarrow> IndexType \<Rightarrow> 's \<Rightarrow> 's option)
     \<Rightarrow> (IndexType \<times> IndexType) list \<Rightarrow> 's \<Rightarrow> 's option" where
  "ApplyToEach_loop E V func [] s = Some s"
| "ApplyToEach_loop E V func ((i, j) # ps) s =
     (case ConstMatrixView_at E V i j of
        None \<Rightarrow> None
      | Some val \<Rightarrow>
          (case func val i j s of
             None \<Rightarrow> None
           | Some s' \<Rightarrow> ApplyToEach_loop E V func ps s'))"

definition ApplyToEach ::
  "'a FloatOrComplex \<Rightarrow> 'a ConstMatrixView \<Rightarrow> ('a \<Rightarrow> IndexType \<Rightarrow> IndexType \<Rightarrow> 's \<Rightarrow> 's option)
     \<Rightarrow> 's \<Rightarrow> 's option" where
  "ApplyToEach E V func s = ApplyToEach_loop E V func (indexes (vRows V) (vColumns V)) s"

text \<open>\<open>operator==(const ConstMatrixView &, const ConstMatrixView &)\<close>.\<close>

definition ConstMatrixView_eq ::
  "'a FloatOrComplex \<Rightarrow> 'a ConstMatrixView \<Rightarrow> 'a ConstMatrixView \<Rightarrow> bool option" where
  "ConstMatrixView_eq E lhs rhs =
     (if vRows lhs \<noteq> vRows rhs \<or> vColumns lhs \<noteq> vColumns rhs then Some False
      else ApplyToEach E lhs
             (\<lambda>val i j is_equal.
                case ConstMatrixView_at E rhs i j of
                  None \<Rightarrow> None
                | Some w \<Rightarrow> Some (if \<not> IsEqualFloating E val w then False else is_equal))
             True)"

subsection \<open>Rounding and the matrix product\<close>

text \<open>
  Modelled from the spec: \<open>Matrix::RoundZeroes()\<close> forwards to \<open>View().RoundZeroes()\<close>
  of \<open>MatrixView\<close>, whose header \<open>matrix_view.h\<close> is not part of the sources. Section 4.2
  of the spec describes it: every entry that passes the tolerance-based zero test
  becomes exact zero, the other entries are kept. The first \<open>class Matrix\<close> of the file
  implements the same operation as \<open>el = IsZeroFloating(el) ? T{0} : el\<close> on every
  element of the buffer.
\<close>

definition RoundZeroes :: "'a::zero FloatOrComplex \<Rightarrow> 'a Matrix \<Rightarrow> 'a Matrix" where
  "RoundZeroes E M =
     M\<lparr>m_buffer := map (\<lambda>el. if IsZeroFloating E el then 0 else el) (m_buffer M)\<rparr>"

text \<open>
  \<open>operator*(const ConstMatrixView &, const ConstMatrixView &)\<close>. \<open>mult_sum\<close> is the
  innermost loop over \<open>k\<close> with the accumulator \<open>sum\<close>, started at \<open>0\<close>; \<open>mult_cells\<close> is
  the pair of loops over \<open>i\<close> and \<open>j\<close>, in row-major order, storing each sum with
  \<open>result(i, j) = sum\<close>.
\<close>

fun mult_sum ::
  "'a::{zero,plus,times} FloatOrComplex \<Rightarrow> 'a ConstMatrixView \<Rightarrow> 'a ConstMatrixView
     \<Rightarrow> IndexType \<Rightarrow> IndexType \<Rightarrow> IndexType list \<Rightarrow> 'a \<Rightarrow> 'a option" where
  "mult_sum E lhs rhs i j [] acc = Some acc"
| "mult_sum E lhs rhs i j (k # ks) acc =
     (case ConstMatrixView_at E lhs i k of
        None \<Rightarrow> None
      | Some a \<Rightarrow>
          (case ConstMatrixView_at E rhs k j of
             None \<Rightarrow> None
           | Some b \<Rightarrow> mult_sum E lhs rhs i j ks (acc + a * b)))"

fun mult_cells ::
  "'a::{zero,plus,times} FloatOrComplex \<Rightarrow> 'a ConstMatrixView \<Rightarrow> 'a ConstMatrixView
     \<Rightarrow> (IndexType \<times> IndexType) list \<Rightarrow> 'a Matrix \<Rightarrow> 'a Matrix option" where
  "mult_cells E lhs rhs [] result = Some result"
| "mult_cells E lhs rhs ((i, j) # ps) result =
     (case mult_sum E lhs rhs i j (map int [0..<nat (vColumns lhs)]) 0 of
        None \<Rightarrow> None
      | Some acc \<Rightarrow>
          (case Matrix_set result i j acc of
             None \<Rightarrow> None
           | Some result' \<Rightarrow> mult_cells E lhs rhs ps result'))"

definition ConstMatrixView_mult ::
  "'a::{zero,plus,times} FloatOrComplex \<Rightarrow> 'a ConstMatrixView \<Rightarrow> 'a ConstMatrixView
     \<Rightarrow> 'a Matrix option" where
  "ConstMatrixView_mult E lhs rhs =
     (if vColumns lhs \<noteq> vRows rhs then None
      else if vRows lhs = 0 \<or> vColumns rhs = 0 then Some Matrix_default
      else (case mult_cells E lhs rhs (indexes (vRows lhs) (vColumns rhs))
                   (Matrix_new (vRows lhs) (vColumns rhs) 0) of
              None \<Rightarrow> None
            | Some result \<Rightarrow> Some (RoundZeroes E result)))"

text \<open>
  The plain left-to-right sum \<open>((0 + a\<^sub>0 b\<^sub>0) + a\<^sub>1 b\<^sub>1) + \<dots>\<close> over the shared dimension,
  as the spec states the value of a product entry.
\<close>

definition plain_sum :: "(IndexType \<Rightarrow> 'a) \<Rightarrow> (IndexType \<Rightarrow> 'a) \<Rightarrow> IndexType \<Rightarrow> 'a::{zero,plus,times}" where
  "plain_sum a b n = foldl (\<lambda>s k. s + a k * b k) 0 (map int [0..<nat n])"

text \<open>A matrix with \<open>c\<close> columns whose buffer holds \<open>r * c\<close> elements.\<close>

definition shaped :: "IndexType \<Rightarrow> IndexType \<Rightarrow> 'a Matrix \<Rightarrow> bool" where
  "shaped r c M = (m_cols M = c \<and> int (length (m_buffer M)) = r * c)"

subsection \<open>In-place transposition\<close>

text \<open>
  \<open>Matrix::Transpose()\<close>. All indices of the function are non-negative and are natural
  numbers here. \<open>next_idx\<close> is the conditional expression that advances \<open>swap_idx\<close>;
  \<open>Rows()\<close> does not change inside the loops, since neither \<open>cols_\<close> nor the size of
  the buffer does, and is passed as \<open>rows\<close>. For an empty buffer \<open>last_idx\<close> is \<open>-1\<close> in
  the source and \<open>0\<close> here; the loop over \<open>i\<close> has no iteration then, and \<open>last_idx\<close> is
  not used.

  The \<open>do \<dots> while\<close> loop is \<open>cycle\<close>. It swaps and marks first and tests
  \<open>swap_idx != i\<close> afterwards. Nothing bounds the number of its iterations, so it is a
  partial function: \<open>None\<close> is a loop that does not end.
\<close>

definition next_idx :: "nat \<Rightarrow> nat \<Rightarrow> nat \<Rightarrow> nat" where
  "next_idx rows last_idx swap_idx =
     (if swap_idx = last_idx then last_idx else (rows * swap_idx) mod last_idx)"

partial_function (option) cycle ::
  "nat \<Rightarrow> nat \<Rightarrow> nat \<Rightarrow> 'a list \<Rightarrow> bool list \<Rightarrow> nat \<Rightarrow> ('a list \<times> bool list) option" where
  "cycle rows last_idx i buf visited swap_idx =
     (let swap_idx' = next_idx rows last_idx swap_idx;
          buf' = buf[swap_idx' := buf ! i, i := buf ! swap_idx'];
          visited' = visited[swap_idx' := True]
      in if swap_idx' \<noteq> i then cycle rows last_idx i buf' visited' swap_idx'
         else Some (buf', visited'))"

declare cycle.simps [code]

text \<open>The loop over \<open>i\<close>, from \<open>1\<close> to \<open>buffer_.size() - 1\<close>, and the function itself.\<close>

fun transpose_loop ::
  "nat \<Rightarrow> nat \<Rightarrow> nat list \<Rightarrow> 'a list \<Rightarrow> bool list \<Rightarrow> ('a list \<times> bool list) option" where
  "transpose_loop rows last_idx [] buf visited = Some (buf, visited)"
| "transpose_loop rows last_idx (i # is) buf visited =
     (if visited ! i then transpose_loop rows last_idx is buf visited
      else (case cycle rows last_idx i buf visited i of
              None \<Rightarrow> None
            | Some (buf', visited') \<Rightarrow> transpose_loop rows last_idx is buf' visited'))"

definition Transpose :: "'a Matrix \<Rightarrow> 'a Matrix option" where
  "Transpose M =
     (let n = length (m_buffer M);
          visited = replicate n False;
          last_idx = n - 1
      in case transpose_loop (nat (Rows M)) last_idx [1..<n] (m_buffer M) visited of
           None \<Rightarrow> None
         | Some (buf', visited') \<Rightarrow> Some \<lparr>m_cols = Rows M, m_buffer = buf'\<rparr>)"

subsection \<open>Notions used in the proofs about \<open>Transpose\<close>\<close>

text \<open>
  A storage of consistent shape: the matrix is empty with \<open>cols_ = 0\<close>, or it has at
  least one row and one column and its buffer holds \<open>Rows() * Columns()\<close> elements.
  The initializer-list constructor, the copies and \<open>Matrix(row_cnt, col_cnt)\<close> with a
  non-negative \<open>row_cnt\<close> build such a storage. \<open>Matrix(row_cnt, col_cnt)\<close> with a
  negative \<open>row_cnt\<close> does not: the buffer is empty, since \<open>CorrectSize\<close> clamps the row
  count to \<open>0\<close>, but \<open>cols_\<close> is reset only when \<open>row_cnt == 0\<close> and keeps the column
  count.
\<close>

definition Matrix_wf :: "'a Matrix \<Rightarrow> bool" where
  "Matrix_wf M =
     ((m_cols M = 0 \<and> m_buffer M = []) \<or>
      (0 < m_cols M \<and> 0 < Rows M \<and> int (length (m_buffer M)) = Rows M * m_cols M))"

text \<open>
  \<open>cycle_state f i buf visited k\<close> is the buffer and the marks after \<open>k\<close> iterations of
  the \<open>do \<dots> while\<close> loop started at \<open>i\<close>, where \<open>f\<close> advances \<open>swap_idx\<close>.
\<close>

fun cycle_state :: "(nat \<Rightarrow> nat) \<Rightarrow> nat \<Rightarrow> 'a list \<Rightarrow> bool list \<Rightarrow> nat \<Rightarrow> 'a list \<times> bool list" where
  "cycle_state f i buf visited 0 = (buf, visited)"
| "cycle_state f i buf visited (Suc k) =
     (let b = fst (cycle_state f i buf visited k);
          v = snd (cycle_state f i buf visited k);
          s' = (f ^^ Suc k) i
      in (b[s' := b ! i, i := b ! s'], v[s' := True]))"

text \<open>
  The invariant of the loop over \<open>i\<close>, for the original buffer \<open>buf0\<close> and the inverse
  \<open>g\<close> of \<open>f\<close>: the marked indices are closed under \<open>f\<close>, a marked index \<open>y\<close> holds the
  original element of index \<open>g y\<close>, and an unmarked index holds its original element.
\<close>

definition tr_inv ::
  "(nat \<Rightarrow> nat) \<Rightarrow> (nat \<Rightarrow> nat) \<Rightarrow> nat \<Rightarrow> 'a list \<Rightarrow> 'a list \<Rightarrow> bool list \<Rightarrow> bool" where
  "tr_inv f g n buf0 buf vis =
     (length buf = n \<and> length vis = n \<and> (\<forall>y<n. vis ! y \<longrightarrow> vis ! f y) \<and>
      (\<forall>y<n. buf ! y = (if vis ! y then buf0 ! g y else buf0 ! y)))"

subsection \<open>The first \<open>class Matrix\<close> of \<open>types/matrix.h\<close>\<close>

text \<open>
  \<open>types/matrix.h\<close> holds two definitions of \<open>class Matrix\<close>. The first one, with the
  member \<open>rows_\<close> and \<open>IndexType = std::size_t\<close>, is the one whose interface
  \<open>GetSchurDecomposition\<close> uses: \<open>Identity(size, default_value)\<close> and
  \<open>GetSubmatrix(r_from, r_to, c_from, c_to)\<close> exist only there. Its members \<open>rows_\<close> and
  \<open>buffer_\<close> are the fields \<open>m1_rows\<close> and \<open>m1_buffer\<close>. Values of \<open>std::size_t\<close> are
  natural numbers; the one subtraction that can wrap around, \<open>Rows() - 2\<close>, is written
  out in \<open>size_t_sub\<close> for a 64-bit \<open>std::size_t\<close>.
\<close>

record 'a Matrix1 =
  m1_rows :: nat
  m1_buffer :: "'a list"

definition size_t_sub :: "nat \<Rightarrow> nat \<Rightarrow> nat" where
  "size_t_sub a b = (if b \<le> a then a - b else a + 2 ^ 64 - b)"

definition Rows1 :: "'a Matrix1 \<Rightarrow> nat" where
  "Rows1 M = m1_rows M"

definition Columns1 :: "'a Matrix1 \<Rightarrow> nat" where
  "Columns1 M = (if m1_rows M = 0 then 0 else length (m1_buffer M) div m1_rows M)"

text \<open>The two \<open>operator()\<close>: a failed assertion is \<open>None\<close>.\<close>

definition Matrix1_at :: "'a Matrix1 \<Rightarrow> nat \<Rightarrow> nat \<Rightarrow> 'a option" where
  "Matrix1_at M row_idx col_idx =
     (let k = Columns1 M * row_idx + col_idx
      in if k < length (m1_buffer M) then Some (m1_buffer M ! k) else None)"

definition Matrix1_set :: "'a Matrix1 \<Rightarrow> nat \<Rightarrow> nat \<Rightarrow> 'a \<Rightarrow> 'a Matrix1 option" where
  "Matrix1_set M row_idx col_idx v =
     (let k = Columns1 M * row_idx + col_idx
      in if k < length (m1_buffer M)
         then Some (M\<lparr>m1_buffer := (m1_buffer M)[k := v]\<rparr>) else None)"

text \<open>\<open>Matrix(row_cnt, col_cnt, value)\<close> with its two assertions.\<close>

definition Matrix1_new :: "nat \<Rightarrow> nat \<Rightarrow> 'a \<Rightarrow> 'a Matrix1 option" where
  "Matrix1_new row_cnt col_cnt v =
     (let M = \<lparr>m1_rows = row_cnt, m1_buffer = replicate (row_cnt * col_cnt) v\<rparr>
      in if 0 < Rows1 M \<and> 0 < Columns1 M then Some M else None)"

text \<open>
  \<open>Matrix(const Data &diag)\<close>: a zero matrix whose diagonal is then assigned in a loop,
  and \<open>Identity(size, default_value)\<close>, which calls it with \<open>size\<close> copies of
  \<open>default_value\<close>.
\<close>

fun diag_loop :: "'a Matrix1 \<Rightarrow> nat \<Rightarrow> 'a list \<Rightarrow> 'a Matrix1 option" where
  "diag_loop M idx [] = Some M"
| "diag_loop M idx (v # diag) =
     (case Matrix1_set M idx idx v of
        None \<Rightarrow> None
      | Some M' \<Rightarrow> diag_loop M' (Suc idx) diag)"

definition Matrix1_diag :: "'a::zero list \<Rightarrow> 'a Matrix1 option" where
  "Matrix1_diag diag =
     (let M = \<lparr>m1_rows = length diag, m1_buffer = replicate (length diag * length diag) 0\<rparr>
      in if 0 < Rows1 M then diag_loop M 0 diag else None)"

definition Identity1 :: "nat \<Rightarrow> 'a::zero \<Rightarrow> 'a Matrix1 option" where
  "Identity1 sz default_value = Matrix1_diag (replicate sz default_value)"

text \<open>
  \<open>ApplyToEach(FunctionIndexes)\<close>: the callback receives the element by reference and
  its row and column; \<open>func\<close> returns the new value of the element, or \<open>None\<close> when an
  assertion fails inside the callback.
\<close>

fun ApplyToEach1_loop ::
  "('a \<Rightarrow> nat \<Rightarrow> nat \<Rightarrow> 'a option) \<Rightarrow> nat \<Rightarrow> nat list \<Rightarrow> 'a list \<Rightarrow> 'a list option" where
  "ApplyToEach1_loop func cols [] buf = Some buf"
| "ApplyToEach1_loop func cols (i # is) buf =
     (case func (buf ! i) (i div cols) (i mod cols) of
        None \<Rightarrow> None
      | Some v \<Rightarrow> ApplyToEach1_loop func cols is (buf[i := v]))"

definition ApplyToEach1 :: "('a \<Rightarrow> nat \<Rightarrow> nat \<Rightarrow> 'a option) \<Rightarrow> 'a Matrix1 \<Rightarrow> 'a Matrix1 option" where
  "ApplyToEach1 func M =
     (if Columns1 M = 0 \<or> Rows1 M = 0 then Some M
      else map_option (\<lambda>buf. M\<lparr>m1_buffer := buf\<rparr>)
             (ApplyToEach1_loop func (Columns1 M) [0..<length (m1_buffer M)] (m1_buffer M)))"

text \<open>\<open>operator-\<close> and \<open>operator+\<close>: a copy of \<open>lhs\<close>, then \<open>-=\<close> or \<open>+=\<close>.\<close>

definition Matrix1_minus :: "'a::minus Matrix1 \<Rightarrow> 'a Matrix1 \<Rightarrow> 'a Matrix1 option" where
  "Matrix1_minus lhs rhs =
     (if Rows1 lhs \<noteq> Rows1 rhs then None
      else if Columns1 lhs \<noteq> Columns1 rhs then None
      else ApplyToEach1 (\<lambda>val i j. map_option (\<lambda>x. val - x) (Matrix1_at rhs i j)) lhs)"

definition Matrix1_plus :: "'a::plus Matrix1 \<Rightarrow> 'a Matrix1 \<Rightarrow> 'a Matrix1 option" where
  "Matrix1_plus lhs rhs =
     (if Rows1 lhs \<noteq> Rows1 rhs then None
      else if Columns1 lhs \<noteq> Columns1 rhs then None
      else ApplyToEach1 (\<lambda>val i j. map_option (\<lambda>x. val + x) (Matrix1_at rhs i j)) lhs)"

text \<open>\<open>operator*(const F &, const S &)\<close> of the first class; it does not round.\<close>

fun mult1_sum ::
  "'a::{zero,plus,times} Matrix1 \<Rightarrow> 'a Matrix1 \<Rightarrow> nat \<Rightarrow> nat \<Rightarrow> nat list \<Rightarrow> 'a \<Rightarrow> 'a option" where
  "mult1_sum lhs rhs i j [] acc = Some acc"
| "mult1_sum lhs rhs i j (k # ks) acc =
     (case Matrix1_at lhs i k of
        None \<Rightarrow> None
      | Some a \<Rightarrow>
          (case Matrix1_at rhs k j of
             None \<Rightarrow> None
           | Some b \<Rightarrow> mult1_sum lhs rhs i j ks (acc + a * b)))"

fun mult1_cells ::
  "'a::{zero,plus,times} Matrix1 \<Rightarrow> 'a Matrix1 \<Rightarrow> (nat \<times> nat) list \<Rightarrow> 'a Matrix1
     \<Rightarrow> 'a Matrix1 option" where
  "mult1_cells lhs rhs [] result = Some result"
| "mult1_cells lhs rhs ((i, j) # ps) result =
     (case mult1_sum lhs rhs i j [0..<Columns1 lhs] 0 of
        None \<Rightarrow> None
      | Some acc \<Rightarrow>
          (case Matrix1_set result i j acc of
             None \<Rightarrow> None
           | Some result' \<Rightarrow> mult1_cells lhs rhs ps result'))"

definition Matrix1_mult :: "'a::{zero,plus,times} Matrix1 \<Rightarrow> 'a Matrix1 \<Rightarrow> 'a Matrix1 option" where
  "Matrix1_mult lhs rhs =
     (if Columns1 lhs \<noteq> Rows1 rhs then None
      else (case Matrix1_new (Rows1 lhs) (Columns1 rhs) 0 of
              None \<Rightarrow> None
            | Some result \<Rightarrow>
                mult1_cells lhs rhs (List.product [0..<Rows1 lhs] [0..<Columns1 rhs]) result))"

text \<open>\<open>RoundZeroes()\<close> of the first class, over every element of the buffer.\<close>

definition RoundZeroes1 :: "'a::zero FloatOrComplex \<Rightarrow> 'a Matrix1 \<Rightarrow> 'a Matrix1" where
  "RoundZeroes1 E M =
     M\<lparr>m1_buffer := map (\<lambda>el. if IsZeroFloating E el then 0 else el) (m1_buffer M)\<rparr>"

text \<open>
  The four assertions of \<open>GetSubmatrix(r_from, r_to, c_from, c_to)\<close>. The view it
  returns is of the class \<open>MatrixView\<close>, whose header is not part of the sources;
  \<open>GetSchurDecomposition\<close> never uses that view.
\<close>

definition GetSubmatrix_asserts :: "'a Matrix1 \<Rightarrow> nat \<Rightarrow> nat \<Rightarrow> nat \<Rightarrow> nat \<Rightarrow> bool" where
  "GetSubmatrix_asserts M r_from r_to c_from c_to =
     ((0 \<le> r_from \<and> r_to \<le> Rows1 M) \<and> r_from < r_to \<and>
      (0 \<le> c_from \<and> c_to \<le> Columns1 M) \<and> c_from < c_to)"

section \<open>The algorithms of \<open>src/unnamed/part_000\<close>\<close>

subsection \<open>Wilkinson shift\<close>

text \<open>
  \<open>GetWilkinsonShift(const MatrixView<T> &)\<close> for a real scalar type. The header of
  \<open>MatrixView\<close> is not part of the sources; the function only asks the view for
  \<open>Rows()\<close>, \<open>Columns()\<close> and four elements, which are read here through
  \<open>ConstMatrixView\<close>, the view class of the sources. \<open>utils::Sign\<close> is not part of the
  sources either and is the parameter \<open>Sign\<close>. Scalar arithmetic is exact real
  arithmetic, except that a division by zero is written out: the quotient by a zero
  \<open>coefficient\<close> is not a number, and the function returns \<open>None\<close>, as it does for a
  failed assertion.
\<close>

definition GetWilkinsonShift ::
  "real FloatOrComplex \<Rightarrow> (real \<Rightarrow> real) \<Rightarrow> real ConstMatrixView \<Rightarrow> real option" where
  "GetWilkinsonShift E Sign matrix =
     (if vRows matrix \<noteq> 2 then None
      else if vColumns matrix \<noteq> 2 then None
      else
        (case (ConstMatrixView_at E matrix 0 0, ConstMatrixView_at E matrix 0 1,
               ConstMatrixView_at E matrix 1 0, ConstMatrixView_at E matrix 1 1) of
           (Some m00, Some m01, Some m10, Some m11) \<Rightarrow>
             if m01 \<noteq> m10 then None
             else
               (let d = (m00 - m11) / 2;
                    coefficient = \<bar>d\<bar> + sqrt (d * d + m01 * m01)
                in if coefficient = 0 then None
                   else Some (m11 - (Sign d * m01 * m01) / coefficient))
         | _ \<Rightarrow> None))"

subsection \<open>Hermitian eigen-iteration\<close>

text \<open>
  \<open>GetSchurDecomposition\<close>, entered through its overload for \<open>const Matrix<T> &\<close>, so
  that \<open>copy\<close> is a copy of the argument. \<open>utils::IsHermitian\<close> and \<open>HouseholderQR\<close> are
  declared in headers that are not part of the sources and are parameters;
  \<open>HouseholderQR\<close> returns the pair \<open>(Q, R)\<close>. \<open>schur_loop\<close> is the \<open>for\<close> loop, with the
  number of iterations still to run.
\<close>

fun schur_loop ::
  "('a Matrix1 \<Rightarrow> 'a Matrix1 \<times> 'a Matrix1) \<Rightarrow> 'a::{zero,plus,minus,times} FloatOrComplex
     \<Rightarrow> 'a Matrix1 \<Rightarrow> nat \<Rightarrow> 'a Matrix1 \<Rightarrow> 'a Matrix1 option" where
  "schur_loop HouseholderQR E shift_I 0 copy = Some copy"
| "schur_loop HouseholderQR E shift_I (Suc n) copy =
     (case Matrix1_minus copy shift_I of
        None \<Rightarrow> None
      | Some d \<Rightarrow>
          (case HouseholderQR d of
             (Q, R) \<Rightarrow>
               (case Matrix1_mult R Q of
                  None \<Rightarrow> None
                | Some p \<Rightarrow>
                    (case Matrix1_plus p shift_I of
                       None \<Rightarrow> None
                     | Some s \<Rightarrow> schur_loop HouseholderQR E shift_I n (RoundZeroes1 E s)))))"

definition GetSchurDecomposition ::
  "('a Matrix1 \<Rightarrow> bool) \<Rightarrow> ('a Matrix1 \<Rightarrow> 'a Matrix1 \<times> 'a Matrix1)
     \<Rightarrow> 'a::{zero,plus,minus,times} FloatOrComplex \<Rightarrow> 'a Matrix1 \<Rightarrow> nat \<Rightarrow> 'a Matrix1 option" where
  "GetSchurDecomposition IsHermitian HouseholderQR E matrix it_cnt =
     (if \<not> IsHermitian matrix then None
      else
        (let copy = matrix
         in if \<not> GetSubmatrix_asserts copy (size_t_sub (Rows1 copy) 2) (Rows1 copy)
                    (size_t_sub (Columns1 copy) 2) (Columns1 copy)
            then None
            else (case Identity1 (Rows1 copy) 0 of
                    None \<Rightarrow> None
                  | Some shift_I \<Rightarrow> schur_loop HouseholderQR E shift_I it_cnt copy)))"

text \<open>
  Plain QR iteration as the spec words it: \<open>it_cnt\<close> times, factor \<open>A = Q R\<close>, replace
  \<open>A\<close> by \<open>R Q\<close> and round the entries that are near zero.
\<close>

fun unshifted_qr_iteration ::
  "('a Matrix1 \<Rightarrow> 'a Matrix1 \<times> 'a Matrix1) \<Rightarrow> 'a::{zero,plus,minus,times} FloatOrComplex
     \<Rightarrow> nat \<Rightarrow> 'a Matrix1 \<Rightarrow> 'a Matrix1 option" where
  "unshifted_qr_iteration HouseholderQR E 0 A = Some A"
| "unshifted_qr_iteration HouseholderQR E (Suc n) A =
     (case HouseholderQR A of
        (Q, R) \<Rightarrow>
          (case Matrix1_mult R Q of
             None \<Rightarrow> None
           | Some p \<Rightarrow> unshifted_qr_iteration HouseholderQR E n (RoundZeroes1 E p)))"

text \<open>
  Modelled from the spec: \<open>utils::IsHermitian\<close> (\<open>utils/checks.h\<close>) is not part of the
  sources. Sections 4.7 and 6 of the spec describe it: the matrix equals its adjoint,
  compared element by element under the tolerance. It is used for closed examples
  only.
\<close>

definition IsHermitian1 :: "'a FloatOrComplex \<Rightarrow> 'a Matrix1 \<Rightarrow> bool" where
  "IsHermitian1 E M =
     (Rows1 M = Columns1 M \<and>
      list_all
        (\<lambda>(i, j). case Matrix1_at M i j of
                     None \<Rightarrow> False
                   | Some a \<Rightarrow>
                       (case Matrix1_at M j i of
                          None \<Rightarrow> False
                        | Some b \<Rightarrow> IsEqualFloating E a (std_conj E b)))
        (List.product [0..<Rows1 M] [0..<Columns1 M]))"

text \<open>The \<open>n \<times> n\<close> zero matrix, and the matrices with \<open>n\<close> rows and \<open>n * n\<close> elements.\<close>

definition zero_matrix1 :: "nat \<Rightarrow> 'a::zero Matrix1" where
  "zero_matrix1 n = \<lparr>m1_rows = n, m1_buffer = replicate (n * n) 0\<rparr>"

definition square1 :: "nat \<Rightarrow> 'a Matrix1 \<Rightarrow> bool" where
  "square1 n M = (m1_rows M = n \<and> length (m1_buffer M) = n * n)"

subsection \<open>Bidiagonal QR sweep\<close>












section \<open>Segment normalisation\<close>

lemma MakeSegment_end:
  "seg_end (MakeSegment seg m) = (if seg_end seg \<le> 0 \<or> seg_end seg > m then m else seg_end seg)"
  by (simp add: MakeSegment_def Let_def)

lemma MakeSegment_begin:
  "seg_begin (MakeSegment seg m) =
     (if seg_begin seg \<ge> seg_end (MakeSegment seg m) \<or> seg_begin seg \<ge> m \<or> seg_begin seg < 0
      then 0 else seg_begin seg)"
  by (simp add: MakeSegment_def Let_def)

lemma MakeSegment_idem: "MakeSegment (MakeSegment seg m) m = MakeSegment seg m"
  by (cases seg) (simp add: MakeSegment_def Let_def)

text \<open>
  Claim C9, as the code has it. \<open>MakeSegment\<close> first replaces \<open>end\<close> by the maximum when
  \<open>end\<close> is non-positive or exceeds the maximum, and then replaces \<open>begin\<close> by \<open>0\<close> when
  \<open>begin\<close> is not below the new \<open>end\<close>, is negative or is not below the maximum. It never
  fails. The sentinel \<open>{-1, -1}\<close> becomes the full axis \<open>[0, max)\<close>, and so does every
  segment whose \<open>end\<close> and \<open>begin\<close> are both out of range; for a positive maximum the
  result is always a non-empty range inside \<open>[0, max)\<close>. A segment that is malformed only
  because \<open>begin \<ge> end\<close> keeps its \<open>end\<close>.
\<close>

theorem MakeSegment_normalises:
  "seg_end (MakeSegment seg m) = (if seg_end seg \<le> 0 \<or> seg_end seg > m then m else seg_end seg) \<and>
   seg_begin (MakeSegment seg m) =
     (if seg_begin seg \<ge> seg_end (MakeSegment seg m) \<or> seg_begin seg < 0 \<or> seg_begin seg \<ge> m
      then 0 else seg_begin seg) \<and>
   MakeSegment \<lparr>seg_begin = -1, seg_end = -1\<rparr> m = \<lparr>seg_begin = 0, seg_end = m\<rparr> \<and>
   ((seg_end seg \<le> 0 \<or> seg_end seg > m) \<and> (seg_begin seg < 0 \<or> seg_begin seg \<ge> m)
      \<longrightarrow> MakeSegment seg m = seg\<lparr>seg_begin := 0, seg_end := m\<rparr>) \<and>
   (0 < m \<longrightarrow> 0 \<le> seg_begin (MakeSegment seg m)
             \<and> seg_begin (MakeSegment seg m) < seg_end (MakeSegment seg m)
             \<and> seg_end (MakeSegment seg m) \<le> m)"
  by (cases seg) (auto simp add: MakeSegment_def Let_def)

theorem MakeSegment_normalises_witness:
  "((12::int) \<le> 0 \<or> (12::int) > 5) \<and> ((7::int) < 0 \<or> (7::int) \<ge> 5) \<and> (0::int) < 5 \<and>
   MakeSegment \<lparr>seg_begin = 7, seg_end = 12\<rparr> 5 = \<lparr>seg_begin = 0, seg_end = 5\<rparr>"
  using MakeSegment_normalises [of "\<lparr>seg_begin = 7, seg_end = 12\<rparr>" 5] by simp

text \<open>
  The segment \<open>{5, 2}\<close> is malformed (\<open>begin \<ge> end\<close>); on an axis of length \<open>10\<close> it
  becomes \<open>[0, 2)\<close>, which is not the full axis \<open>[0, 10)\<close>.
\<close>

theorem MakeSegment_inverted_counterexample:
  "MakeSegment \<lparr>seg_begin = 5, seg_end = 2\<rparr> 10 = \<lparr>seg_begin = 0, seg_end = 2\<rparr> \<and>
   MakeSegment \<lparr>seg_begin = 5, seg_end = 2\<rparr> 10 \<noteq> \<lparr>seg_begin = 0, seg_end = 10\<rparr>"
  by (simp add: MakeSegment_def)

section \<open>Element read of a view\<close>

text \<open>
  Claim C2 at a sub-view with different offsets. The matrix is
  \<open>[[1,2,3],[4,5,6],[7,8,9]]\<close> and the view is row \<open>1\<close> of its transposed view: the row
  segment is \<open>[1, 2)\<close>, the column segment \<open>[0, 3)\<close> and \<open>transposed\<close> is set. The claim
  reads the storage element at \<open>(column.begin + j, row.begin + i)\<close>, which for
  \<open>(i, j) = (0, 0)\<close> is the element \<open>(0, 1)\<close>, that is \<open>2\<close>, the first entry of column \<open>1\<close>
  of the matrix. The code reads \<open>(row.begin + j, column.begin + i)\<close>, the element
  \<open>(1, 0)\<close>, that is \<open>4\<close>.
\<close>

theorem transposed_row_read:
  "Matrix_of_rows [[1, 2, 3], [4, 5, 6], [7, 8, 9 :: real]]
     = Some \<lparr>m_cols = 3, m_buffer = [1, 2, 3, 4, 5, 6, 7, 8, 9]\<rparr> \<and>
   GetRow (Transposed (View \<lparr>m_cols = 3, m_buffer = [1, 2, 3, 4, 5, 6, 7, 8, 9 :: real]\<rparr>)) 1
     = Some \<lparr>v_ptr = \<lparr>m_cols = 3, m_buffer = [1, 2, 3, 4, 5, 6, 7, 8, 9]\<rparr>,
             v_row = \<lparr>seg_begin = 1, seg_end = 2\<rparr>, v_column = \<lparr>seg_begin = 0, seg_end = 3\<rparr>,
             v_state = \<lparr>is_transposed = True, is_conjugated = False\<rparr>\<rparr> \<and>
   ConstMatrixView_at E
     \<lparr>v_ptr = \<lparr>m_cols = 3, m_buffer = [1, 2, 3, 4, 5, 6, 7, 8, 9 :: real]\<rparr>,
      v_row = \<lparr>seg_begin = 1, seg_end = 2\<rparr>, v_column = \<lparr>seg_begin = 0, seg_end = 3\<rparr>,
      v_state = \<lparr>is_transposed = True, is_conjugated = False\<rparr>\<rparr> 0 0 = Some 4 \<and>
   Matrix_at \<lparr>m_cols = 3, m_buffer = [1, 2, 3, 4, 5, 6, 7, 8, 9 :: real]\<rparr> (0 + 0) (1 + 0) = Some 2"
  by (simp add: Matrix_of_rows_def GetRow_def Transposed_def View_def ConstMatrixView_new_def
      MakeSegment_def Rows_def Columns_def vRows_def ConstMatrixView_at_def Matrix_at_def Let_def)

theorem transposed_row_read_witness:
  "ConstMatrixView_at (real_elements (1 / 1000))
     \<lparr>v_ptr = \<lparr>m_cols = 3, m_buffer = [1, 2, 3, 4, 5, 6, 7, 8, 9 :: real]\<rparr>,
      v_row = \<lparr>seg_begin = 1, seg_end = 2\<rparr>, v_column = \<lparr>seg_begin = 0, seg_end = 3\<rparr>,
      v_state = \<lparr>is_transposed = True, is_conjugated = False\<rparr>\<rparr> 0 0 = Some 4"
  using transposed_row_read [of "real_elements (1 / 1000)"] by simp

section \<open>Equality\<close>

text \<open>
  Claim C4 at two owning matrices of different shapes. \<open>[[1,2,3],[4,5,6]]\<close> is
  \<open>2 \<times> 3\<close> and \<open>[[1,2],[3,4],[5,6]]\<close> is \<open>3 \<times> 2\<close>; \<open>operator==\<close> on the two matrices
  compares the buffers only and returns true, while \<open>operator==\<close> on their views
  compares the shapes first and returns false.
\<close>

theorem Matrix_eq_ignores_shape:
  "Matrix_of_rows [[1, 2, 3], [4, 5, 6 :: real]] = Some \<lparr>m_cols = 3, m_buffer = [1, 2, 3, 4, 5, 6]\<rparr> \<and>
   Matrix_of_rows [[1, 2], [3, 4], [5, 6 :: real]] = Some \<lparr>m_cols = 2, m_buffer = [1, 2, 3, 4, 5, 6]\<rparr> \<and>
   Rows \<lparr>m_cols = 3, m_buffer = [1, 2, 3, 4, 5, 6 :: real]\<rparr> = 2 \<and>
   Rows \<lparr>m_cols = 2, m_buffer = [1, 2, 3, 4, 5, 6 :: real]\<rparr> = 3 \<and>
   Matrix_eq \<lparr>m_cols = 3, m_buffer = [1, 2, 3, 4, 5, 6 :: real]\<rparr>
             \<lparr>m_cols = 2, m_buffer = [1, 2, 3, 4, 5, 6]\<rparr> \<and>
   ConstMatrixView_eq E (View \<lparr>m_cols = 3, m_buffer = [1, 2, 3, 4, 5, 6 :: real]\<rparr>)
                        (View \<lparr>m_cols = 2, m_buffer = [1, 2, 3, 4, 5, 6]\<rparr>) = Some False"
  by (simp add: Matrix_of_rows_def Matrix_eq_def ConstMatrixView_eq_def View_def
      ConstMatrixView_new_def MakeSegment_def Rows_def Columns_def vRows_def vColumns_def)

theorem Matrix_eq_ignores_shape_witness:
  "Matrix_eq \<lparr>m_cols = 3, m_buffer = [1, 2, 3, 4, 5, 6 :: real]\<rparr>
             \<lparr>m_cols = 2, m_buffer = [1, 2, 3, 4, 5, 6]\<rparr> \<and>
   ConstMatrixView_eq (real_elements (1 / 1000))
     (View \<lparr>m_cols = 3, m_buffer = [1, 2, 3, 4, 5, 6 :: real]\<rparr>)
     (View \<lparr>m_cols = 2, m_buffer = [1, 2, 3, 4, 5, 6]\<rparr>) = Some False"
  using Matrix_eq_ignores_shape [of "real_elements (1 / 1000)"] by simp

section \<open>Matrix product\<close>

lemma mult_sum_foldl:
  assumes "\<And>k. k \<in> set ks \<Longrightarrow> ConstMatrixView_at E lhs i k = Some (a k)"
    and "\<And>k. k \<in> set ks \<Longrightarrow> ConstMatrixView_at E rhs k j = Some (b k)"
  shows "mult_sum E lhs rhs i j ks s = Some (foldl (\<lambda>s k. s + a k * b k) s ks)"
  using assms by (induction ks arbitrary: s) simp_all

lemma cell_index_inj:
  fixes c :: int
  assumes "0 \<le> j" "j < c" "0 \<le> j'" "j' < c" "c * i + j = c * i' + j'"
  shows "i = i' \<and> j = j'"
proof -
  have c: "c \<noteq> 0" using assms by auto
  have "(j + c * i) div c = i + j div c" using c by (rule div_mult_self2)
  then have a: "(c * i + j) div c = i" using assms(1,2) by (simp add: add.commute)
  have "(j' + c * i') div c = i' + j' div c" using c by (rule div_mult_self2)
  then have b: "(c * i' + j') div c = i'" using assms(3,4) by (simp add: add.commute)
  have "(c * i + j) div c = (c * i' + j') div c" using assms(5) by (rule arg_cong)
  then have "i = i'" using a b by (simp only:)
  then show ?thesis using assms(5) by simp
qed

lemma cell_index_range:
  fixes c :: int
  assumes "0 \<le> i" "i < r" "0 \<le> j" "j < c"
  shows "0 \<le> c * i + j \<and> c * i + j < r * c"
proof -
  have "c * i + j < c * i + c" using assms by simp
  also have "\<dots> = c * (i + 1)" by (simp add: algebra_simps)
  also have "\<dots> \<le> c * r" using assms by (intro mult_left_mono) auto
  finally have "c * i + j < r * c" by (simp add: mult.commute)
  moreover have "0 \<le> c * i" using assms by simp
  ultimately show ?thesis using assms by simp
qed

lemma Matrix_set_shaped:
  assumes "shaped r c M" "0 \<le> i" "i < r" "0 \<le> j" "j < c"
  shows "\<exists>M'. Matrix_set M i j v = Some M' \<and> shaped r c M' \<and>
           (\<forall>i' j'. 0 \<le> i' \<and> i' < r \<and> 0 \<le> j' \<and> j' < c \<longrightarrow>
              Matrix_at M' i' j' = (if i' = i \<and> j' = j then Some v else Matrix_at M i' j'))"
proof -
  from assms have c: "m_cols M = c" and len: "int (length (m_buffer M)) = r * c"
    by (simp_all add: shaped_def)
  have rng: "0 \<le> c * i + j \<and> c * i + j < r * c"
    using cell_index_range assms by blast
  let ?M' = "M\<lparr>m_buffer := (m_buffer M)[nat (c * i + j) := v]\<rparr>"
  have st: "Matrix_set M i j v = Some ?M'"
    using rng c len by (simp add: Matrix_set_def Columns_def Let_def)
  have sh: "shaped r c ?M'" using c len by (simp add: shaped_def)
  have rd: "Matrix_at ?M' i' j' = (if i' = i \<and> j' = j then Some v else Matrix_at M i' j')"
    if h: "0 \<le> i'" "i' < r" "0 \<le> j'" "j' < c" for i' j'
  proof -
    have rng': "0 \<le> c * i' + j' \<and> c * i' + j' < r * c"
      using cell_index_range h by blast
    show ?thesis
    proof (cases "i' = i \<and> j' = j")
      case True
      then show ?thesis using rng c len
        by (simp add: Matrix_at_def Columns_def Let_def nat_less_iff)
    next
      case False
      then have "c * i' + j' \<noteq> c * i + j"
        using cell_index_inj [of j' c j i' i] h assms by blast
      then have "nat (c * i' + j') \<noteq> nat (c * i + j)" using rng rng' by linarith
      then have "Matrix_at ?M' i' j' = Matrix_at M i' j'" using rng' c len
        by (simp add: Matrix_at_def Columns_def Let_def)
      moreover have "(if i' = i \<and> j' = j then Some v else Matrix_at M i' j') = Matrix_at M i' j'"
        using False by (rule if_not_P)
      ultimately show ?thesis by (simp only:)
    qed
  qed
  show ?thesis using st sh rd by blast
qed

lemma mult_cells_entries:
  assumes "shaped r c res"
    and "\<And>i j. (i, j) \<in> set ps \<Longrightarrow> 0 \<le> i \<and> i < r \<and> 0 \<le> j \<and> j < c"
    and "\<And>i j k. (i, j) \<in> set ps \<Longrightarrow> 0 \<le> k \<Longrightarrow> k < vColumns lhs \<Longrightarrow>
           ConstMatrixView_at E lhs i k = Some (A i k)"
    and "\<And>i j k. (i, j) \<in> set ps \<Longrightarrow> 0 \<le> k \<Longrightarrow> k < vColumns lhs \<Longrightarrow>
           ConstMatrixView_at E rhs k j = Some (B k j)"
  shows "\<exists>res'. mult_cells E lhs rhs ps res = Some res' \<and> shaped r c res' \<and>
           (\<forall>i j. 0 \<le> i \<and> i < r \<and> 0 \<le> j \<and> j < c \<longrightarrow>
              Matrix_at res' i j =
                (if (i, j) \<in> set ps
                 then Some (plain_sum (\<lambda>k. A i k) (\<lambda>k. B k j) (vColumns lhs))
                 else Matrix_at res i j))"
  using assms
proof (induction ps arbitrary: res)
  case Nil
  then show ?case by simp
next
  case (Cons p ps)
  obtain i j where p: "p = (i, j)" by (cases p)
  have ij: "0 \<le> i \<and> i < r \<and> 0 \<le> j \<and> j < c" using Cons.prems(2) [of i j] p by simp
  let ?s = "plain_sum (\<lambda>k. A i k) (\<lambda>k. B k j) (vColumns lhs)"
  have sm: "mult_sum E lhs rhs i j (map int [0..<nat (vColumns lhs)]) 0 = Some ?s"
    unfolding plain_sum_def
  proof (rule mult_sum_foldl)
    fix k assume "k \<in> set (map int [0..<nat (vColumns lhs)])"
    then have k: "0 \<le> k" "k < vColumns lhs" by auto
    show "ConstMatrixView_at E lhs i k = Some (A i k)"
      using Cons.prems(3) [of i j k] p k by simp
  next
    fix k assume "k \<in> set (map int [0..<nat (vColumns lhs)])"
    then have k: "0 \<le> k" "k < vColumns lhs" by auto
    show "ConstMatrixView_at E rhs k j = Some (B k j)"
      using Cons.prems(4) [of i j k] p k by simp
  qed
  obtain res1 where set1: "Matrix_set res i j ?s = Some res1" and sh1: "shaped r c res1"
    and rd1: "\<And>i' j'. 0 \<le> i' \<and> i' < r \<and> 0 \<le> j' \<and> j' < c \<Longrightarrow>
               Matrix_at res1 i' j' = (if i' = i \<and> j' = j then Some ?s else Matrix_at res i' j')"
    using Matrix_set_shaped [OF Cons.prems(1), of i j ?s] ij by blast
  have "\<exists>res'. mult_cells E lhs rhs ps res1 = Some res' \<and> shaped r c res' \<and>
           (\<forall>i j. 0 \<le> i \<and> i < r \<and> 0 \<le> j \<and> j < c \<longrightarrow>
              Matrix_at res' i j =
                (if (i, j) \<in> set ps
                 then Some (plain_sum (\<lambda>k. A i k) (\<lambda>k. B k j) (vColumns lhs))
                 else Matrix_at res1 i j))"
  proof (rule Cons.IH [OF sh1])
    fix i j assume "(i, j) \<in> set ps"
    then show "0 \<le> i \<and> i < r \<and> 0 \<le> j \<and> j < c" using Cons.prems(2) [of i j] by simp
  next
    fix i j k assume "(i, j) \<in> set ps" "0 \<le> k" "k < vColumns lhs"
    then show "ConstMatrixView_at E lhs i k = Some (A i k)" using Cons.prems(3) [of i j k] by simp
  next
    fix i j k assume "(i, j) \<in> set ps" "0 \<le> k" "k < vColumns lhs"
    then show "ConstMatrixView_at E rhs k j = Some (B k j)" using Cons.prems(4) [of i j k] by simp
  qed
  then obtain res' where m: "mult_cells E lhs rhs ps res1 = Some res'" and sh': "shaped r c res'"
    and rd': "\<And>i j. 0 \<le> i \<and> i < r \<and> 0 \<le> j \<and> j < c \<Longrightarrow>
              Matrix_at res' i j =
                (if (i, j) \<in> set ps
                 then Some (plain_sum (\<lambda>k. A i k) (\<lambda>k. B k j) (vColumns lhs))
                 else Matrix_at res1 i j)"
    by blast
  have "mult_cells E lhs rhs (p # ps) res = Some res'"
    using p sm set1 m by simp
  moreover have "Matrix_at res' i' j' =
                (if (i', j') \<in> set (p # ps)
                 then Some (plain_sum (\<lambda>k. A i' k) (\<lambda>k. B k j') (vColumns lhs))
                 else Matrix_at res i' j')"
    if "0 \<le> i' \<and> i' < r \<and> 0 \<le> j' \<and> j' < c" for i' j'
    using rd' [OF that] rd1 [OF that] p by auto
  ultimately show ?case using sh' by blast
qed

lemma set_indexes: "set (indexes r c) = {(i, j). 0 \<le> i \<and> i < r \<and> 0 \<le> j \<and> j < c}"
proof -
  have "set (map int [0..<nat n]) = {i. 0 \<le> i \<and> i < n}" for n
  proof -
    have "i \<in> int ` {0..<nat n}" if "0 \<le> i" "i < n" for i
      using that by (intro image_eqI [where x = "nat i"]) auto
    then show ?thesis by auto
  qed
  then show ?thesis by (auto simp add: indexes_def)
qed

lemma Matrix_new_shaped: "0 < r \<Longrightarrow> 0 < c \<Longrightarrow> shaped r c (Matrix_new r c v)"
  by (simp add: shaped_def Matrix_new_def CorrectSize_def Let_def mult.commute)

lemma RoundZeroes_at:
  "Matrix_at (RoundZeroes E M) i j =
     map_option (\<lambda>el. if IsZeroFloating E el then 0 else el) (Matrix_at M i j)"
  by (simp add: RoundZeroes_def Matrix_at_def Columns_def Let_def nat_less_iff)

lemma shaped_Rows: "shaped r c M \<Longrightarrow> 0 < c \<Longrightarrow> Rows M = r \<and> Columns M = c"
  by (simp add: shaped_def Rows_def Columns_def)

lemma RoundZeroes_shaped: "shaped r c M \<Longrightarrow> shaped r c (RoundZeroes E M)"
  by (simp add: shaped_def RoundZeroes_def)

lemma mult_entries:
  assumes cols: "vColumns lhs = vRows rhs" and r: "0 < vRows lhs" and c: "0 < vColumns rhs"
    and L: "\<And>i k. 0 \<le> i \<Longrightarrow> i < vRows lhs \<Longrightarrow> 0 \<le> k \<Longrightarrow> k < vColumns lhs \<Longrightarrow>
              ConstMatrixView_at E lhs i k = Some (A i k)"
    and R: "\<And>k j. 0 \<le> k \<Longrightarrow> k < vRows rhs \<Longrightarrow> 0 \<le> j \<Longrightarrow> j < vColumns rhs \<Longrightarrow>
              ConstMatrixView_at E rhs k j = Some (B k j)"
  shows "\<exists>res. ConstMatrixView_mult E lhs rhs = Some res \<and>
           Rows res = vRows lhs \<and> Columns res = vColumns rhs \<and>
           (\<forall>i j. 0 \<le> i \<and> i < vRows lhs \<and> 0 \<le> j \<and> j < vColumns rhs \<longrightarrow>
              Matrix_at res i j =
                Some (let s = plain_sum (\<lambda>k. A i k) (\<lambda>k. B k j) (vColumns lhs)
                      in if IsZeroFloating E s then 0 else s))"
proof -
  let ?r = "vRows lhs" and ?c = "vColumns rhs"
  have "\<exists>res'. mult_cells E lhs rhs (indexes ?r ?c) (Matrix_new ?r ?c 0) = Some res' \<and>
          shaped ?r ?c res' \<and>
           (\<forall>i j. 0 \<le> i \<and> i < ?r \<and> 0 \<le> j \<and> j < ?c \<longrightarrow>
              Matrix_at res' i j =
                (if (i, j) \<in> set (indexes ?r ?c)
                 then Some (plain_sum (\<lambda>k. A i k) (\<lambda>k. B k j) (vColumns lhs))
                 else Matrix_at (Matrix_new ?r ?c 0) i j))"
  proof (rule mult_cells_entries [OF Matrix_new_shaped [OF r c]])
    fix i j assume "(i, j) \<in> set (indexes ?r ?c)"
    then show "0 \<le> i \<and> i < ?r \<and> 0 \<le> j \<and> j < ?c" by (simp add: set_indexes)
  next
    fix i j k assume "(i, j) \<in> set (indexes ?r ?c)" "0 \<le> k" "k < vColumns lhs"
    then show "ConstMatrixView_at E lhs i k = Some (A i k)"
      using L by (simp add: set_indexes)
  next
    fix i j k assume "(i, j) \<in> set (indexes ?r ?c)" "0 \<le> k" "k < vColumns lhs"
    then show "ConstMatrixView_at E rhs k j = Some (B k j)"
      using R cols by (simp add: set_indexes)
  qed
  then obtain res' where m: "mult_cells E lhs rhs (indexes ?r ?c) (Matrix_new ?r ?c 0) = Some res'"
    and sh: "shaped ?r ?c res'"
    and rd: "\<And>i j. 0 \<le> i \<and> i < ?r \<and> 0 \<le> j \<and> j < ?c \<Longrightarrow>
              Matrix_at res' i j = Some (plain_sum (\<lambda>k. A i k) (\<lambda>k. B k j) (vColumns lhs))"
    by (auto simp add: set_indexes)
  have "ConstMatrixView_mult E lhs rhs = Some (RoundZeroes E res')"
    using cols r c m by (simp add: ConstMatrixView_mult_def)
  moreover have "Rows (RoundZeroes E res') = ?r \<and> Columns (RoundZeroes E res') = ?c"
    using shaped_Rows [OF RoundZeroes_shaped [OF sh] c] .
  moreover have "Matrix_at (RoundZeroes E res') i j =
                Some (let s = plain_sum (\<lambda>k. A i k) (\<lambda>k. B k j) (vColumns lhs)
                      in if IsZeroFloating E s then 0 else s)"
    if "0 \<le> i \<and> i < ?r \<and> 0 \<le> j \<and> j < ?c" for i j
    using rd [OF that] by (simp add: RoundZeroes_at Let_def)
  ultimately show ?thesis by blast
qed


lemma mult_rounded:
  assumes "ConstMatrixView_mult E lhs rhs = Some res"
  shows "\<forall>e \<in> set (m_buffer res). \<not> (e \<noteq> 0 \<and> IsZeroFloating E e)"
proof (cases "vRows lhs = 0 \<or> vColumns rhs = 0")
  case True
  then have "res = Matrix_default" using assms
    by (auto simp add: ConstMatrixView_mult_def split: if_splits)
  then show ?thesis by (simp add: Matrix_default_def)
next
  case False
  then obtain result where "res = RoundZeroes E result" using assms
    by (auto simp add: ConstMatrixView_mult_def split: if_splits option.splits)
  then show ?thesis by (auto simp add: RoundZeroes_def)
qed

text \<open>
  Claim C8, as the code has it. For two views with \<open>lhs.Columns() == rhs.Rows()\<close> whose
  elements can all be read (\<open>A\<close> and \<open>B\<close> name the values read), the product returns a
  matrix; it is the empty matrix when \<open>lhs.Rows()\<close> or \<open>rhs.Columns()\<close> is zero, and
  otherwise has \<open>lhs.Rows()\<close> rows and \<open>rhs.Columns()\<close> columns, and its entry \<open>(i, j)\<close> is
  the plain left-to-right sum over \<open>k\<close> of \<open>lhs(i,k) * rhs(k,j)\<close> when that sum fails the
  tolerance zero test, and exact zero when the sum passes it.
\<close>

theorem product_shape_and_entries:
  assumes "vColumns lhs = vRows rhs" and "0 \<le> vRows lhs" and "0 \<le> vColumns rhs"
    and "\<And>i k. 0 \<le> i \<Longrightarrow> i < vRows lhs \<Longrightarrow> 0 \<le> k \<Longrightarrow> k < vColumns lhs \<Longrightarrow>
              ConstMatrixView_at E lhs i k = Some (A i k)"
    and "\<And>k j. 0 \<le> k \<Longrightarrow> k < vRows rhs \<Longrightarrow> 0 \<le> j \<Longrightarrow> j < vColumns rhs \<Longrightarrow>
              ConstMatrixView_at E rhs k j = Some (B k j)"
  shows "\<exists>res. ConstMatrixView_mult E lhs rhs = Some res \<and>
           (if vRows lhs = 0 \<or> vColumns rhs = 0
            then res = Matrix_default \<and> Rows res = 0 \<and> Columns res = 0
            else Rows res = vRows lhs \<and> Columns res = vColumns rhs \<and>
                 (\<forall>i j. 0 \<le> i \<and> i < vRows lhs \<and> 0 \<le> j \<and> j < vColumns rhs \<longrightarrow>
                    Matrix_at res i j =
                      Some (let s = plain_sum (\<lambda>k. A i k) (\<lambda>k. B k j) (vColumns lhs)
                            in if IsZeroFloating E s then 0 else s)))"
proof (cases "vRows lhs = 0 \<or> vColumns rhs = 0")
  case True
  then show ?thesis using assms(1)
    by (simp add: ConstMatrixView_mult_def Matrix_default_def Rows_def Columns_def)
next
  case False
  then have "0 < vRows lhs" "0 < vColumns rhs" using assms(2,3) by simp_all
  from mult_entries [OF assms(1) this assms(4,5)] False show ?thesis by simp
qed

theorem product_shape_and_entries_witness:
  "vColumns (View \<lparr>m_cols = 1, m_buffer = [1 / 1000 :: real]\<rparr>)
     = vRows (View \<lparr>m_cols = 1, m_buffer = [1 :: real]\<rparr>) \<and>
   (\<exists>res. ConstMatrixView_mult (real_elements (1 / 100))
            (View \<lparr>m_cols = 1, m_buffer = [1 / 1000]\<rparr>) (View \<lparr>m_cols = 1, m_buffer = [1]\<rparr>)
            = Some res \<and>
          Rows res = 1 \<and> Columns res = 1 \<and> Matrix_at res 0 0 = Some 0)"
proof -
  let ?E = "real_elements (1 / 100)"
  let ?l = "View \<lparr>m_cols = 1, m_buffer = [1 / 1000 :: real]\<rparr>"
  let ?r = "View \<lparr>m_cols = 1, m_buffer = [1 :: real]\<rparr>"
  have dims: "vRows ?l = 1" "vColumns ?l = 1" "vRows ?r = 1" "vColumns ?r = 1"
    by (simp_all add: View_def ConstMatrixView_new_def MakeSegment_def Rows_def Columns_def
        vRows_def vColumns_def)
  have L: "ConstMatrixView_at ?E ?l i k = Some ((\<lambda>i k. 1 / 1000) i k)"
    if "0 \<le> i" "i < vRows ?l" "0 \<le> k" "k < vColumns ?l" for i k
  proof -
    have "i = 0" "k = 0" using that dims by simp_all
    then show ?thesis
      by (simp add: ConstMatrixView_at_def Matrix_at_def View_def ConstMatrixView_new_def
          MakeSegment_def Rows_def Columns_def real_elements_def Let_def)
  qed
  have R: "ConstMatrixView_at ?E ?r k j = Some ((\<lambda>k j. 1) k j)"
    if "0 \<le> k" "k < vRows ?r" "0 \<le> j" "j < vColumns ?r" for k j
  proof -
    have "j = 0" "k = 0" using that dims by simp_all
    then show ?thesis
      by (simp add: ConstMatrixView_at_def Matrix_at_def View_def ConstMatrixView_new_def
          MakeSegment_def Rows_def Columns_def real_elements_def Let_def)
  qed
  have ps: "plain_sum (\<lambda>k. 1 / 1000 :: real) (\<lambda>k. 1) 1 = 1 / 1000"
    by (simp add: plain_sum_def)
  have z: "IsZeroFloating ?E (1 / 1000)" by (simp add: real_elements_def)
  have "vColumns ?l = vRows ?r" "0 \<le> vRows ?l" "0 \<le> vColumns ?r" using dims by simp_all
  from product_shape_and_entries [of ?l ?r ?E "\<lambda>i k. 1 / 1000" "\<lambda>k j. 1", OF this L R]
  obtain res where m: "ConstMatrixView_mult ?E ?l ?r = Some res"
    and sh: "Rows res = 1 \<and> Columns res = 1"
    and rd: "\<And>i j. 0 \<le> i \<and> i < 1 \<and> 0 \<le> j \<and> j < 1 \<Longrightarrow> Matrix_at res i j = Some 0"
    using dims ps z by (auto simp add: Let_def)
  have "Matrix_at res 0 0 = Some 0" by (rule rd) simp
  then show ?thesis using m sh dims by auto
qed

text \<open>
  With the tolerance \<open>1/100\<close>, the product of the \<open>1 \<times> 1\<close> matrices \<open>[[1/1000]]\<close> and
  \<open>[[1]]\<close> is \<open>[[0]]\<close>, while the plain sum is \<open>1/1000\<close>.
\<close>

theorem product_entry_counterexample:
  "ConstMatrixView_mult (real_elements (1 / 100))
     (View \<lparr>m_cols = 1, m_buffer = [1 / 1000]\<rparr>) (View \<lparr>m_cols = 1, m_buffer = [1]\<rparr>)
     = Some \<lparr>m_cols = 1, m_buffer = [0]\<rparr> \<and>
   Matrix_at \<lparr>m_cols = 1, m_buffer = [0 :: real]\<rparr> 0 0 = Some 0 \<and>
   plain_sum (\<lambda>k. 1 / 1000 :: real) (\<lambda>k. 1) 1 = 1 / 1000 \<and>
   (0 :: real) \<noteq> 1 / 1000"
  by (simp add: ConstMatrixView_mult_def View_def ConstMatrixView_new_def MakeSegment_def
      Rows_def Columns_def vRows_def vColumns_def indexes_def Matrix_new_def CorrectSize_def
      ConstMatrixView_at_def Matrix_at_def Matrix_set_def RoundZeroes_def real_elements_def
      plain_sum_def Let_def)

lemma mult_unrounded:
  assumes cols: "vColumns lhs = vRows rhs" and r: "0 < vRows lhs" and c: "0 < vColumns rhs"
    and L: "\<And>i k. 0 \<le> i \<Longrightarrow> i < vRows lhs \<Longrightarrow> 0 \<le> k \<Longrightarrow> k < vColumns lhs \<Longrightarrow>
              ConstMatrixView_at E lhs i k = Some (A i k)"
    and R: "\<And>k j. 0 \<le> k \<Longrightarrow> k < vRows rhs \<Longrightarrow> 0 \<le> j \<Longrightarrow> j < vColumns rhs \<Longrightarrow>
              ConstMatrixView_at E rhs k j = Some (B k j)"
  shows "\<exists>result. mult_cells E lhs rhs (indexes (vRows lhs) (vColumns rhs))
                     (Matrix_new (vRows lhs) (vColumns rhs) 0) = Some result \<and>
           (\<forall>i j. 0 \<le> i \<and> i < vRows lhs \<and> 0 \<le> j \<and> j < vColumns rhs \<longrightarrow>
              Matrix_at result i j = Some (plain_sum (\<lambda>k. A i k) (\<lambda>k. B k j) (vColumns lhs))) \<and>
           ConstMatrixView_mult E lhs rhs = Some (RoundZeroes E result)"
proof -
  let ?r = "vRows lhs" and ?c = "vColumns rhs"
  have "\<exists>res'. mult_cells E lhs rhs (indexes ?r ?c) (Matrix_new ?r ?c 0) = Some res' \<and>
          shaped ?r ?c res' \<and>
           (\<forall>i j. 0 \<le> i \<and> i < ?r \<and> 0 \<le> j \<and> j < ?c \<longrightarrow>
              Matrix_at res' i j =
                (if (i, j) \<in> set (indexes ?r ?c)
                 then Some (plain_sum (\<lambda>k. A i k) (\<lambda>k. B k j) (vColumns lhs))
                 else Matrix_at (Matrix_new ?r ?c 0) i j))"
  proof (rule mult_cells_entries [OF Matrix_new_shaped [OF r c]])
    fix i j assume "(i, j) \<in> set (indexes ?r ?c)"
    then show "0 \<le> i \<and> i < ?r \<and> 0 \<le> j \<and> j < ?c" by (simp add: set_indexes)
  next
    fix i j k assume "(i, j) \<in> set (indexes ?r ?c)" "0 \<le> k" "k < vColumns lhs"
    then show "ConstMatrixView_at E lhs i k = Some (A i k)"
      using L by (simp add: set_indexes)
  next
    fix i j k assume "(i, j) \<in> set (indexes ?r ?c)" "0 \<le> k" "k < vColumns lhs"
    then show "ConstMatrixView_at E rhs k j = Some (B k j)"
      using R cols by (simp add: set_indexes)
  qed
  then obtain res' where m: "mult_cells E lhs rhs (indexes ?r ?c) (Matrix_new ?r ?c 0) = Some res'"
    and rd: "\<And>i j. 0 \<le> i \<and> i < ?r \<and> 0 \<le> j \<and> j < ?c \<Longrightarrow>
              Matrix_at res' i j = Some (plain_sum (\<lambda>k. A i k) (\<lambda>k. B k j) (vColumns lhs))"
    by (auto simp add: set_indexes)
  have "ConstMatrixView_mult E lhs rhs = Some (RoundZeroes E res')"
    using cols r c m by (simp add: ConstMatrixView_mult_def)
  then show ?thesis using m rd by blast
qed

lemma plain_sum_two: "plain_sum a b 2 = (0 + a 0 * b 0) + a 1 * b 1"
  by (simp add: plain_sum_def numeral_2_eq_2)

text \<open>
  Claim C10. The product is rounded before it is returned. For two views with
  \<open>lhs.Columns() == rhs.Rows()\<close> whose elements can all be read, the loops of
  \<open>operator*\<close> fill \<open>result\<close> with the plain sums, and the matrix returned is
  \<open>result\<close> after \<open>RoundZeroes()\<close>: an entry whose accumulated sum passes the tolerance
  zero test is returned as exact zero, an entry whose sum fails the test is returned as
  that sum, and no entry of a returned product is at once nonzero and approximately
  zero. When \<open>lhs.Rows()\<close> or \<open>rhs.Columns()\<close> is zero the empty matrix is returned.
\<close>

theorem product_is_rounded:
  assumes "vColumns lhs = vRows rhs" and "0 \<le> vRows lhs" and "0 \<le> vColumns rhs"
    and "\<And>i k. 0 \<le> i \<Longrightarrow> i < vRows lhs \<Longrightarrow> 0 \<le> k \<Longrightarrow> k < vColumns lhs \<Longrightarrow>
              ConstMatrixView_at E lhs i k = Some (A i k)"
    and "\<And>k j. 0 \<le> k \<Longrightarrow> k < vRows rhs \<Longrightarrow> 0 \<le> j \<Longrightarrow> j < vColumns rhs \<Longrightarrow>
              ConstMatrixView_at E rhs k j = Some (B k j)"
  shows "\<exists>res. ConstMatrixView_mult E lhs rhs = Some res \<and>
           (if vRows lhs = 0 \<or> vColumns rhs = 0 then res = Matrix_default
            else \<exists>result.
                   mult_cells E lhs rhs (indexes (vRows lhs) (vColumns rhs))
                     (Matrix_new (vRows lhs) (vColumns rhs) 0) = Some result \<and>
                   (\<forall>i j. 0 \<le> i \<and> i < vRows lhs \<and> 0 \<le> j \<and> j < vColumns rhs \<longrightarrow>
                      Matrix_at result i j
                        = Some (plain_sum (\<lambda>k. A i k) (\<lambda>k. B k j) (vColumns lhs))) \<and>
                   res = RoundZeroes E result) \<and>
           (\<forall>i j. 0 \<le> i \<and> i < vRows lhs \<and> 0 \<le> j \<and> j < vColumns rhs \<and>
                  IsZeroFloating E (plain_sum (\<lambda>k. A i k) (\<lambda>k. B k j) (vColumns lhs))
                  \<longrightarrow> Matrix_at res i j = Some 0) \<and>
           (\<forall>i j. 0 \<le> i \<and> i < vRows lhs \<and> 0 \<le> j \<and> j < vColumns rhs \<and>
                  \<not> IsZeroFloating E (plain_sum (\<lambda>k. A i k) (\<lambda>k. B k j) (vColumns lhs))
                  \<longrightarrow> Matrix_at res i j
                        = Some (plain_sum (\<lambda>k. A i k) (\<lambda>k. B k j) (vColumns lhs))) \<and>
           (\<forall>e \<in> set (m_buffer res). \<not> (e \<noteq> 0 \<and> IsZeroFloating E e))"
proof (cases "vRows lhs = 0 \<or> vColumns rhs = 0")
  case True
  then have m: "ConstMatrixView_mult E lhs rhs = Some Matrix_default" using assms(1)
    by (simp add: ConstMatrixView_mult_def)
  have e: "\<not> (0 \<le> i \<and> i < vRows lhs \<and> 0 \<le> j \<and> j < vColumns rhs)" for i j :: int
    using True by auto
  have b: "\<forall>e \<in> set (m_buffer (Matrix_default :: 'a Matrix)). \<not> (e \<noteq> 0 \<and> IsZeroFloating E e)"
    by (simp add: Matrix_default_def)
  show ?thesis
  proof (intro exI [of _ "Matrix_default :: 'a Matrix"] conjI)
    show "ConstMatrixView_mult E lhs rhs = Some Matrix_default" using m .
    show "if vRows lhs = 0 \<or> vColumns rhs = 0 then (Matrix_default :: 'a Matrix) = Matrix_default
          else \<exists>result.
                   mult_cells E lhs rhs (indexes (vRows lhs) (vColumns rhs))
                     (Matrix_new (vRows lhs) (vColumns rhs) 0) = Some result \<and>
                   (\<forall>i j. 0 \<le> i \<and> i < vRows lhs \<and> 0 \<le> j \<and> j < vColumns rhs \<longrightarrow>
                      Matrix_at result i j
                        = Some (plain_sum (\<lambda>k. A i k) (\<lambda>k. B k j) (vColumns lhs))) \<and>
                   (Matrix_default :: 'a Matrix) = RoundZeroes E result"
      using True by simp
  qed (use e b in blast)+
next
  case False
  then have pos: "0 < vRows lhs" "0 < vColumns rhs" using assms(2,3) by simp_all
  from mult_unrounded [OF assms(1) pos assms(4,5)]
  obtain result where c: "mult_cells E lhs rhs (indexes (vRows lhs) (vColumns rhs))
                            (Matrix_new (vRows lhs) (vColumns rhs) 0) = Some result"
    and rd: "\<forall>i j. 0 \<le> i \<and> i < vRows lhs \<and> 0 \<le> j \<and> j < vColumns rhs \<longrightarrow>
              Matrix_at result i j = Some (plain_sum (\<lambda>k. A i k) (\<lambda>k. B k j) (vColumns lhs))"
    and m: "ConstMatrixView_mult E lhs rhs = Some (RoundZeroes E result)"
    by blast
  have z: "Matrix_at (RoundZeroes E result) i j = Some 0"
    if "0 \<le> i \<and> i < vRows lhs \<and> 0 \<le> j \<and> j < vColumns rhs \<and>
        IsZeroFloating E (plain_sum (\<lambda>k. A i k) (\<lambda>k. B k j) (vColumns lhs))" for i j
    using rd that by (simp add: RoundZeroes_at)
  have k: "Matrix_at (RoundZeroes E result) i j
             = Some (plain_sum (\<lambda>k. A i k) (\<lambda>k. B k j) (vColumns lhs))"
    if "0 \<le> i \<and> i < vRows lhs \<and> 0 \<le> j \<and> j < vColumns rhs \<and>
        \<not> IsZeroFloating E (plain_sum (\<lambda>k. A i k) (\<lambda>k. B k j) (vColumns lhs))" for i j
    using rd that by (simp add: RoundZeroes_at)
  have b: "\<forall>e \<in> set (m_buffer (RoundZeroes E result)). \<not> (e \<noteq> 0 \<and> IsZeroFloating E e)"
    using mult_rounded [OF m] .
  show ?thesis
  proof (intro exI [of _ "RoundZeroes E result"] conjI)
    show "ConstMatrixView_mult E lhs rhs = Some (RoundZeroes E result)" using m .
    show "if vRows lhs = 0 \<or> vColumns rhs = 0 then RoundZeroes E result = Matrix_default
          else \<exists>result'.
                   mult_cells E lhs rhs (indexes (vRows lhs) (vColumns rhs))
                     (Matrix_new (vRows lhs) (vColumns rhs) 0) = Some result' \<and>
                   (\<forall>i j. 0 \<le> i \<and> i < vRows lhs \<and> 0 \<le> j \<and> j < vColumns rhs \<longrightarrow>
                      Matrix_at result' i j
                        = Some (plain_sum (\<lambda>k. A i k) (\<lambda>k. B k j) (vColumns lhs))) \<and>
                   RoundZeroes E result = RoundZeroes E result'"
      using False c rd by auto
  qed (use z k b in blast)+
qed

theorem product_is_rounded_witness:
  "\<exists>res. ConstMatrixView_mult (real_elements (1 / 100))
            (View \<lparr>m_cols = 2, m_buffer = [1, 1, 1, 2]\<rparr>)
            (View \<lparr>m_cols = 2, m_buffer = [1 / 1000, 1, 1 / 1000, 1]\<rparr>) = Some res \<and>
          Matrix_at res 0 0 = Some 0 \<and> Matrix_at res 0 1 = Some 2 \<and>
          Matrix_at res 1 0 = Some 0 \<and> Matrix_at res 1 1 = Some 3"
proof -
  let ?E = "real_elements (1 / 100)"
  let ?l = "View \<lparr>m_cols = 2, m_buffer = [1, 1, 1, 2 :: real]\<rparr>"
  let ?r = "View \<lparr>m_cols = 2, m_buffer = [1 / 1000, 1, 1 / 1000, 1 :: real]\<rparr>"
  let ?A = "\<lambda>(i::int) (k::int). if i = 0 then 1 else if k = 0 then 1 else (2 :: real)"
  let ?B = "\<lambda>(k::int) (j::int). if j = 0 then 1 / 1000 else (1 :: real)"
  have dims: "vRows ?l = 2" "vColumns ?l = 2" "vRows ?r = 2" "vColumns ?r = 2"
    by (simp_all add: View_def ConstMatrixView_new_def MakeSegment_def Rows_def Columns_def
        vRows_def vColumns_def)
  have two: "i = 0 \<or> i = 1" if "0 \<le> i" "i < 2" for i :: int using that by auto
  have L: "ConstMatrixView_at ?E ?l i k = Some (?A i k)"
    if "0 \<le> i" "i < vRows ?l" "0 \<le> k" "k < vColumns ?l" for i k
    using two [of i] two [of k] that dims
    by (auto simp add: ConstMatrixView_at_def Matrix_at_def View_def ConstMatrixView_new_def
          MakeSegment_def Rows_def Columns_def real_elements_def Let_def)
  have R: "ConstMatrixView_at ?E ?r k j = Some (?B k j)"
    if "0 \<le> k" "k < vRows ?r" "0 \<le> j" "j < vColumns ?r" for k j
    using two [of k] two [of j] that dims
    by (auto simp add: ConstMatrixView_at_def Matrix_at_def View_def ConstMatrixView_new_def
          MakeSegment_def Rows_def Columns_def real_elements_def Let_def)
  have ps: "plain_sum (\<lambda>k. ?A 0 k) (\<lambda>k. ?B k 0) 2 = 2 / 1000"
    "plain_sum (\<lambda>k. ?A 0 k) (\<lambda>k. ?B k 1) 2 = 2"
    "plain_sum (\<lambda>k. ?A 1 k) (\<lambda>k. ?B k 0) 2 = 3 / 1000"
    "plain_sum (\<lambda>k. ?A 1 k) (\<lambda>k. ?B k 1) 2 = 3"
    by (simp_all add: plain_sum_two)
  have z: "IsZeroFloating ?E (2 / 1000)" "\<not> IsZeroFloating ?E 2"
    "IsZeroFloating ?E (3 / 1000)" "\<not> IsZeroFloating ?E 3"
    by (simp_all add: real_elements_def)
  have h: "vColumns ?l = vRows ?r" "0 \<le> vRows ?l" "0 \<le> vColumns ?r" using dims by simp_all
  from product_is_rounded [of ?l ?r ?E ?A ?B, OF h L R]
  obtain res where m: "ConstMatrixView_mult ?E ?l ?r = Some res"
    and zr: "\<And>i j. 0 \<le> i \<and> i < vRows ?l \<and> 0 \<le> j \<and> j < vColumns ?r \<and>
              IsZeroFloating ?E (plain_sum (\<lambda>k. ?A i k) (\<lambda>k. ?B k j) (vColumns ?l))
              \<Longrightarrow> Matrix_at res i j = Some 0"
    and kp: "\<And>i j. 0 \<le> i \<and> i < vRows ?l \<and> 0 \<le> j \<and> j < vColumns ?r \<and>
              \<not> IsZeroFloating ?E (plain_sum (\<lambda>k. ?A i k) (\<lambda>k. ?B k j) (vColumns ?l))
              \<Longrightarrow> Matrix_at res i j = Some (plain_sum (\<lambda>k. ?A i k) (\<lambda>k. ?B k j) (vColumns ?l))"
    by blast
  have r00: "Matrix_at res 0 0 = Some 0"
  proof (rule zr)
    show "0 \<le> (0::int) \<and> 0 < vRows ?l \<and> 0 \<le> (0::int) \<and> 0 < vColumns ?r \<and>
          IsZeroFloating ?E (plain_sum (\<lambda>k. ?A 0 k) (\<lambda>k. ?B k 0) (vColumns ?l))"
      unfolding dims ps using z by simp
  qed
  have r10: "Matrix_at res 1 0 = Some 0"
  proof (rule zr)
    show "0 \<le> (1::int) \<and> 1 < vRows ?l \<and> 0 \<le> (0::int) \<and> 0 < vColumns ?r \<and>
          IsZeroFloating ?E (plain_sum (\<lambda>k. ?A 1 k) (\<lambda>k. ?B k 0) (vColumns ?l))"
      unfolding dims ps using z by simp
  qed
  have "Matrix_at res 0 1 = Some (plain_sum (\<lambda>k. ?A 0 k) (\<lambda>k. ?B k 1) (vColumns ?l))"
  proof (rule kp)
    show "0 \<le> (0::int) \<and> 0 < vRows ?l \<and> 0 \<le> (1::int) \<and> 1 < vColumns ?r \<and>
          \<not> IsZeroFloating ?E (plain_sum (\<lambda>k. ?A 0 k) (\<lambda>k. ?B k 1) (vColumns ?l))"
      unfolding dims ps using z by simp
  qed
  then have r01: "Matrix_at res 0 1 = Some 2" unfolding dims ps .
  have "Matrix_at res 1 1 = Some (plain_sum (\<lambda>k. ?A 1 k) (\<lambda>k. ?B k 1) (vColumns ?l))"
  proof (rule kp)
    show "0 \<le> (1::int) \<and> 1 < vRows ?l \<and> 0 \<le> (1::int) \<and> 1 < vColumns ?r \<and>
          \<not> IsZeroFloating ?E (plain_sum (\<lambda>k. ?A 1 k) (\<lambda>k. ?B k 1) (vColumns ?l))"
      unfolding dims ps using z by simp
  qed
  then have r11: "Matrix_at res 1 1 = Some 3" unfolding dims ps .
  show ?thesis using m r00 r01 r10 r11 by blast
qed

section \<open>Wilkinson shift\<close>

lemma coefficient_zero_iff:
  fixes d b :: real
  shows "\<bar>d\<bar> + sqrt (d * d + b * b) = 0 \<longleftrightarrow> d = 0 \<and> b = 0"
proof
  assume h: "\<bar>d\<bar> + sqrt (d * d + b * b) = 0"
  have nn: "0 \<le> sqrt (d * d + b * b)" by simp
  have "\<bar>d\<bar> = 0" and s: "sqrt (d * d + b * b) = 0" using h nn by linarith+
  then have d: "d = 0" by simp
  from s have "d * d + b * b = 0" by simp
  with d have "b = 0" by simp
  with d show "d = 0 \<and> b = 0" by simp
next
  assume "d = 0 \<and> b = 0"
  then show "\<bar>d\<bar> + sqrt (d * d + b * b) = 0" by simp
qed

text \<open>
  For the symmetric block \<open>[[a, b], [b, d]]\<close> let \<open>\<delta> = (a - d) / 2\<close>. When \<open>\<delta>\<close> and \<open>b\<close>
  are not both zero, \<open>GetWilkinsonShift\<close> returns
  \<open>d - Sign(\<delta>) b\<^sup>2 / (|\<delta>| + sqrt(\<delta>\<^sup>2 + b\<^sup>2))\<close>, with the sign that \<open>utils::Sign\<close>
  computes; when both are zero the denominator is zero.
\<close>

lemma wilkinson_shift_formula:
  assumes "vRows matrix = 2" and "vColumns matrix = 2"
    and "ConstMatrixView_at E matrix 0 0 = Some a"
    and "ConstMatrixView_at E matrix 0 1 = Some b"
    and "ConstMatrixView_at E matrix 1 0 = Some b"
    and "ConstMatrixView_at E matrix 1 1 = Some d"
  shows "GetWilkinsonShift E Sign matrix =
           (if (a - d) / 2 = 0 \<and> b = 0 then None
            else Some (d - Sign ((a - d) / 2) * b\<^sup>2
                           / (\<bar>(a - d) / 2\<bar> + sqrt (((a - d) / 2)\<^sup>2 + b\<^sup>2))))"
proof -
  let ?dl = "(a - d) / 2"
  have "\<bar>?dl\<bar> + sqrt (?dl * ?dl + b * b) = 0 \<longleftrightarrow> ?dl = 0 \<and> b = 0"
    by (rule coefficient_zero_iff)
  then show ?thesis using assms
    by (simp add: GetWilkinsonShift_def Let_def power2_eq_square mult.assoc)
qed

lemma sq25: "sqrt 25 = 5"
proof -
  have "sqrt (5\<^sup>2) = \<bar>5 :: real\<bar>" by (rule real_sqrt_abs)
  then show ?thesis by simp
qed

lemma wilkinson_shift_formula_example:
  "GetWilkinsonShift (real_elements (1 / 1000)) sgn (View \<lparr>m_cols = 2, m_buffer = [3, 4, 4, -3]\<rparr>)
     = Some (-5)"
proof -
  let ?E = "real_elements (1 / 1000)"
  let ?M = "View \<lparr>m_cols = 2, m_buffer = [3, 4, 4, -3 :: real]\<rparr>"
  have "vRows ?M = 2" "vColumns ?M = 2"
    "ConstMatrixView_at ?E ?M 0 0 = Some 3" "ConstMatrixView_at ?E ?M 0 1 = Some 4"
    "ConstMatrixView_at ?E ?M 1 0 = Some 4" "ConstMatrixView_at ?E ?M 1 1 = Some (-3)"
    by (simp_all add: View_def ConstMatrixView_new_def MakeSegment_def Rows_def Columns_def
        vRows_def vColumns_def ConstMatrixView_at_def Matrix_at_def real_elements_def Let_def)
  from wilkinson_shift_formula [OF this, of sgn] show ?thesis by (simp add: sq25)
qed

text \<open>
  Claim C3 at the block \<open>[[1, 0], [0, 1]]\<close>, where \<open>\<delta> = 0\<close> and \<open>b = 0\<close>. The claim
  returns \<open>d = 1\<close> there, without a division by zero. The code has no clamp: it divides
  \<open>Sign(0) * 0 * 0\<close> by \<open>|0| + sqrt(0 + 0) = 0\<close>, whether \<open>Sign(0)\<close> is \<open>0\<close> or \<open>1\<close>, and
  returns no number.
\<close>

theorem GetWilkinsonShift_zero_block:
  "GetWilkinsonShift (real_elements (1 / 1000)) sgn (View \<lparr>m_cols = 2, m_buffer = [1, 0, 0, 1]\<rparr>)
     = None \<and>
   GetWilkinsonShift (real_elements (1 / 1000)) (\<lambda>x. if x < 0 then - 1 else 1)
     (View \<lparr>m_cols = 2, m_buffer = [1, 0, 0, 1]\<rparr>) = None"
  by (simp add: GetWilkinsonShift_def View_def ConstMatrixView_new_def MakeSegment_def Rows_def
      Columns_def vRows_def vColumns_def ConstMatrixView_at_def Matrix_at_def real_elements_def
      Let_def)

section \<open>In-place transposition\<close>

lemma next_idx_lt:
  assumes "2 \<le> R * C" "x < R * C"
  shows "next_idx R (R * C - 1) x < R * C"
proof (cases "x = R * C - 1")
  case True
  then show ?thesis using assms by (simp add: next_idx_def)
next
  case False
  have "(R * x) mod (R * C - 1) < R * C - 1" using assms by (intro mod_less_divisor) simp
  then show ?thesis using False by (simp add: next_idx_def)
qed

lemma next_idx_inverse_aux:
  assumes L: "0 < L" and CR: "C * R = L + 1" and xn: "x \<le> L"
  shows "next_idx C L (next_idx R L x) = x"
proof (cases "x = L")
  case True
  then show ?thesis by (simp add: next_idx_def)
next
  case False
  then have xl: "x < L" using xn by simp
  have lt: "(R * x) mod L < L" using L by (rule mod_less_divisor)
  have "(C * ((R * x) mod L)) mod L = (C * (R * x)) mod L" by (rule mod_mult_right_eq)
  also have "C * (R * x) = (C * R) * x" by (simp only: mult.assoc)
  also have "(C * R) * x = L * x + x" by (simp only: CR add_mult_distrib mult_1)
  also have "(L * x + x) mod L = x mod L" by simp
  also have "x mod L = x" using xl by simp
  finally have "(C * ((R * x) mod L)) mod L = x" .
  then show ?thesis using False lt by (simp add: next_idx_def)
qed

lemma next_idx_inverse:
  assumes "2 \<le> R * C" "x < R * C"
  shows "next_idx C (R * C - 1) (next_idx R (R * C - 1) x) = x"
  using assms by (intro next_idx_inverse_aux) (simp_all add: mult.commute)


lemma funpow_lt:
  assumes "\<And>x. x < n \<Longrightarrow> f x < (n::nat)" "i < n"
  shows "(f ^^ k) i < n"
  using assms by (induction k) simp_all

lemma funpow_cancel:
  assumes A1: "\<And>x. x < n \<Longrightarrow> f x < (n::nat)" and A2: "\<And>x. x < n \<Longrightarrow> g (f x) = x"
    and "x < n" "y < n" "(f ^^ a) x = (f ^^ a) y"
  shows "x = y"
  using assms(3-)
proof (induction a)
  case 0
  then show ?case by simp
next
  case (Suc a)
  have u: "(f ^^ a) x < n" and v: "(f ^^ a) y < n"
    using funpow_lt [of n f] A1 Suc.prems by blast+
  from Suc.prems have "f ((f ^^ a) x) = f ((f ^^ a) y)" by simp
  then have "g (f ((f ^^ a) x)) = g (f ((f ^^ a) y))" by simp
  then have "(f ^^ a) x = (f ^^ a) y" using A2 [OF u] A2 [OF v] by simp
  then show ?case using Suc.IH Suc.prems by blast
qed

lemma period_exists:
  assumes A1: "\<And>x. x < n \<Longrightarrow> f x < (n::nat)" and A2: "\<And>x. x < n \<Longrightarrow> g (f x) = x"
    and i: "i < n"
  shows "\<exists>m>0. (f ^^ m) i = i"
proof -
  let ?h = "\<lambda>k. (f ^^ k) i"
  have sub: "?h ` {0..n} \<subseteq> {0..<n}" using funpow_lt [of n f i] A1 i by auto
  have "card (?h ` {0..n}) \<le> card {0..<n}" using sub by (intro card_mono) simp_all
  then have "card (?h ` {0..n}) < card {0..n}" by simp
  then have "\<not> inj_on ?h {0..n}" by (rule pigeonhole)
  then obtain a b where ab: "a \<noteq> b" "?h a = ?h b" by (auto simp add: inj_on_def)
  have gen: "\<exists>m>0. (f ^^ m) i = i" if "a < b" "(f ^^ a) i = (f ^^ b) i" for a b
  proof -
    have "(f ^^ b) i = (f ^^ a) ((f ^^ (b - a)) i)"
      using that(1) funpow_add [of a "b - a" f] by simp
    then have "(f ^^ a) i = (f ^^ a) ((f ^^ (b - a)) i)" using that(2) by simp
    then have "i = (f ^^ (b - a)) i"
      using funpow_cancel [of n f g i "(f ^^ (b - a)) i" a] A1 A2 i funpow_lt [of n f i] by blast
    then show ?thesis using that(1) by (intro exI [of _ "b - a"]) simp
  qed
  show ?thesis
  proof (cases "a < b")
    case True
    then show ?thesis using gen ab by blast
  next
    case False
    then have "b < a" using ab by simp
    then show ?thesis using gen [of b a] ab by simp
  qed
qed

lemma orbit_distinct:
  assumes A1: "\<And>x. x < n \<Longrightarrow> f x < (n::nat)" and A2: "\<And>x. x < n \<Longrightarrow> g (f x) = x"
    and i: "i < n"
    and minimal: "\<And>j. 0 < j \<Longrightarrow> j < m \<Longrightarrow> (f ^^ j) i \<noteq> i"
    and "a < b" "b \<le> m" "(f ^^ a) i = (f ^^ b) i"
  shows "a = 0 \<and> b = m"
proof -
  have "(f ^^ b) i = (f ^^ a) ((f ^^ (b - a)) i)"
    using assms(5) funpow_add [of a "b - a" f] by simp
  then have "(f ^^ a) i = (f ^^ a) ((f ^^ (b - a)) i)" using assms(7) by simp
  then have "i = (f ^^ (b - a)) i"
    using funpow_cancel [of n f g i "(f ^^ (b - a)) i" a] A1 A2 i funpow_lt [of n f i] by blast
  then have "\<not> (b - a < m)" using minimal [of "b - a"] assms(5) by auto
  then show ?thesis using assms(5,6) by auto
qed

lemma cycle_unfold:
  "cycle R L i (fst (cycle_state (next_idx R L) i buf vis k))
           (snd (cycle_state (next_idx R L) i buf vis k)) ((next_idx R L ^^ k) i)
   = (if (next_idx R L ^^ Suc k) i \<noteq> i
      then cycle R L i (fst (cycle_state (next_idx R L) i buf vis (Suc k)))
             (snd (cycle_state (next_idx R L) i buf vis (Suc k))) ((next_idx R L ^^ Suc k) i)
      else Some (cycle_state (next_idx R L) i buf vis (Suc k)))"
  by (subst cycle.simps) (simp add: Let_def)

lemma cycle_run:
  assumes m: "0 < m" "(next_idx R L ^^ m) i = i"
    and minimal: "\<And>j. 0 < j \<Longrightarrow> j < m \<Longrightarrow> (next_idx R L ^^ j) i \<noteq> i"
    and k: "k < m"
  shows "cycle R L i (fst (cycle_state (next_idx R L) i buf vis k))
           (snd (cycle_state (next_idx R L) i buf vis k)) ((next_idx R L ^^ k) i)
         = Some (cycle_state (next_idx R L) i buf vis m)"
  using k
proof (induction "m - k" arbitrary: k)
  case 0
  then show ?case by simp
next
  case (Suc d)
  let ?f = "next_idx R L"
  show ?case
  proof (cases "Suc k = m")
    case True
    then have "(?f ^^ Suc k) i = i" using m by simp
    then have "cycle R L i (fst (cycle_state ?f i buf vis k))
           (snd (cycle_state ?f i buf vis k)) ((?f ^^ k) i)
         = Some (cycle_state ?f i buf vis (Suc k))"
      by (subst cycle_unfold) (simp only: simp_thms if_False)
    then show ?thesis using True by (simp only:)
  next
    case False
    then have lt: "Suc k < m" using Suc.prems by simp
    then have ne: "(?f ^^ Suc k) i \<noteq> i" using minimal [of "Suc k"] by simp
    have "d = m - Suc k" using Suc.hyps(2) by simp
    from Suc.hyps(1) [OF this lt]
    have "cycle R L i (fst (cycle_state ?f i buf vis (Suc k)))
            (snd (cycle_state ?f i buf vis (Suc k))) ((?f ^^ Suc k) i)
          = Some (cycle_state ?f i buf vis m)" .
    then show ?thesis using ne by (subst cycle_unfold) (simp only: simp_thms if_True)
  qed
qed


lemma cycle_state_length:
  "length (fst (cycle_state f i buf vis k)) = length buf \<and>
   length (snd (cycle_state f i buf vis k)) = length vis"
  by (induction k) (simp_all add: Let_def)

lemma cycle_state_visited:
  assumes A1: "\<And>x. x < n \<Longrightarrow> f x < (n::nat)" and i: "i < n" and len: "length vis = n"
    and y: "y < n"
  shows "snd (cycle_state f i buf vis k) ! y
           = (vis ! y \<or> (\<exists>j. 1 \<le> j \<and> j \<le> k \<and> y = (f ^^ j) i))"
proof (induction k)
  case 0
  then show ?case by auto
next
  case (Suc k)
  let ?v = "snd (cycle_state f i buf vis k)"
  let ?s' = "(f ^^ Suc k) i"
  have s'n: "?s' < length ?v"
    using funpow_lt [of n f i "Suc k"] A1 i len cycle_state_length [of f i buf vis k] by simp
  have "snd (cycle_state f i buf vis (Suc k)) ! y = (?v[?s' := True]) ! y"
    by (simp add: Let_def)
  also have "\<dots> = (if ?s' = y then True else ?v ! y)"
    using s'n by (simp only: nth_list_update)
  also have "\<dots> = (y = ?s' \<or> vis ! y \<or> (\<exists>j. 1 \<le> j \<and> j \<le> k \<and> y = (f ^^ j) i))"
    using Suc.IH by auto
  also have "\<dots> = (vis ! y \<or> (\<exists>j. 1 \<le> j \<and> j \<le> Suc k \<and> y = (f ^^ j) i))"
  proof -
    have "(\<exists>j. 1 \<le> j \<and> j \<le> Suc k \<and> y = (f ^^ j) i)
            = (y = ?s' \<or> (\<exists>j. 1 \<le> j \<and> j \<le> k \<and> y = (f ^^ j) i))"
      by (metis le_Suc_eq le_add1 plus_1_eq_Suc)
    then show ?thesis by blast
  qed
  finally show ?case .
qed

lemma cycle_state_buffer:
  assumes A1: "\<And>x. x < n \<Longrightarrow> f x < (n::nat)" and A2: "\<And>x. x < n \<Longrightarrow> g (f x) = x"
    and i: "i < n" and len: "length buf = n"
    and minimal: "\<And>j. 0 < j \<Longrightarrow> j < m \<Longrightarrow> (f ^^ j) i \<noteq> i"
    and k: "k < m"
  shows "fst (cycle_state f i buf vis k) ! i = buf ! ((f ^^ k) i) \<and>
         (\<forall>y<n. y \<noteq> i \<longrightarrow>
            fst (cycle_state f i buf vis k) ! y
              = (if \<exists>j. 1 \<le> j \<and> j \<le> k \<and> y = (f ^^ j) i then buf ! g y else buf ! y))"
  using k
proof (induction k)
  case 0
  then show ?case by auto
next
  case (Suc k)
  let ?b = "fst (cycle_state f i buf vis k)"
  let ?s = "(f ^^ k) i"
  let ?s' = "(f ^^ Suc k) i"
  have km: "k < m" using Suc.prems by simp
  have lenb: "length ?b = n" using cycle_state_length [of f i buf vis k] len by simp
  have IHi: "?b ! i = buf ! ?s" using Suc.IH [OF km] by blast
  have IHy: "?b ! y = (if \<exists>j. 1 \<le> j \<and> j \<le> k \<and> y = (f ^^ j) i then buf ! g y else buf ! y)"
    if "y < n" "y \<noteq> i" for y
    using Suc.IH [OF km] that by blast
  have sn: "?s < n" and s'n: "?s' < n" using funpow_lt [of n f i] A1 i by blast+
  have s'i: "?s' \<noteq> i" using minimal [of "Suc k"] Suc.prems by simp
  have nodup: "\<not> (\<exists>j. 1 \<le> j \<and> j \<le> k \<and> ?s' = (f ^^ j) i)"
  proof
    assume "\<exists>j. 1 \<le> j \<and> j \<le> k \<and> ?s' = (f ^^ j) i"
    then obtain j where j: "1 \<le> j" "j \<le> k" "(f ^^ j) i = ?s'" by auto
    have "j < Suc k" "Suc k \<le> m" using j Suc.prems by simp_all
    from orbit_distinct [of n f g i m j "Suc k", OF A1 A2 i minimal this j(3)]
    show False using j(1) by simp
  qed
  have gs': "g ?s' = ?s" using A2 [OF sn] by simp
  have upd: "fst (cycle_state f i buf vis (Suc k)) = ?b[?s' := ?b ! i, i := ?b ! ?s']"
    by (simp add: Let_def)
  have bs': "?b ! ?s' = buf ! ?s'" using IHy [OF s'n s'i] by (simp only: nodup if_False)
  have c1: "fst (cycle_state f i buf vis (Suc k)) ! i = buf ! ?s'"
    using upd lenb i bs' by simp
  have c2: "fst (cycle_state f i buf vis (Suc k)) ! y
              = (if \<exists>j. 1 \<le> j \<and> j \<le> Suc k \<and> y = (f ^^ j) i then buf ! g y else buf ! y)"
    if y: "y < n" "y \<noteq> i" for y
  proof (cases "y = ?s'")
    case True
    have "fst (cycle_state f i buf vis (Suc k)) ! y = ?b ! i"
      using upd True lenb s'n s'i by simp
    also have "\<dots> = buf ! g y" using IHi gs' True by simp
    finally show ?thesis using True by auto
  next
    case False
    have ex: "(\<exists>j. 1 \<le> j \<and> j \<le> Suc k \<and> y = (f ^^ j) i)
            = (\<exists>j. 1 \<le> j \<and> j \<le> k \<and> y = (f ^^ j) i)"
      using False by (metis le_Suc_eq)
    have "fst (cycle_state f i buf vis (Suc k)) ! y = ?b ! y"
      using upd False y by simp
    then show ?thesis using IHy [OF y] ex by simp
  qed
  show ?case using c1 c2 by blast
qed

lemma cycle_state_final:
  assumes A1: "\<And>x. x < n \<Longrightarrow> f x < (n::nat)" and A2: "\<And>x. x < n \<Longrightarrow> g (f x) = x"
    and i: "i < n" and len: "length buf = n"
    and minimal: "\<And>j. 0 < j \<Longrightarrow> j < m \<Longrightarrow> (f ^^ j) i \<noteq> i"
    and m: "0 < m" "(f ^^ m) i = i"
    and y: "y < n"
  shows "fst (cycle_state f i buf vis m) ! y
           = (if \<exists>j. 1 \<le> j \<and> j \<le> m \<and> y = (f ^^ j) i then buf ! g y else buf ! y)"
proof -
  obtain k where mk: "m = Suc k" using m(1) by (cases m) auto
  let ?b = "fst (cycle_state f i buf vis k)"
  have km: "k < m" using mk by simp
  have si: "(f ^^ Suc k) i = i" using m(2) mk by simp
  have B: "?b ! i = buf ! ((f ^^ k) i)"
    and By: "\<And>y. y < n \<Longrightarrow> y \<noteq> i \<Longrightarrow> ?b ! y
              = (if \<exists>j. 1 \<le> j \<and> j \<le> k \<and> y = (f ^^ j) i then buf ! g y else buf ! y)"
    using cycle_state_buffer [of n f g i buf m k vis, OF A1 A2 i len minimal km] by blast+
  have "fst (cycle_state f i buf vis (Suc k)) = ?b[(f ^^ Suc k) i := ?b ! i, i := ?b ! (f ^^ Suc k) i]"
    by (simp add: Let_def)
  then have same: "fst (cycle_state f i buf vis m) = ?b" using si mk by simp
  have sn: "(f ^^ k) i < n" using funpow_lt [of n f i] A1 i by blast
  have gi: "g i = (f ^^ k) i" using A2 [OF sn] si by simp
  show ?thesis
  proof (cases "y = i")
    case True
    have "\<exists>j. 1 \<le> j \<and> j \<le> m \<and> y = (f ^^ j) i" using True m by (intro exI [of _ m]) simp
    then show ?thesis using same B gi True by simp
  next
    case False
    have ex: "(\<exists>j. 1 \<le> j \<and> j \<le> m \<and> y = (f ^^ j) i)
            = (\<exists>j. 1 \<le> j \<and> j \<le> k \<and> y = (f ^^ j) i)"
      using False si mk by (metis le_Suc_eq)
    show ?thesis using same By [OF y False] ex by simp
  qed
qed


lemma visited_funpow:
  assumes A1: "\<And>x. x < n \<Longrightarrow> f x < (n::nat)"
    and cl: "\<forall>y<n. vis ! y \<longrightarrow> vis ! f y" and "y < n" "vis ! y"
  shows "vis ! ((f ^^ k) y)"
proof (induction k)
  case 0
  then show ?case using assms by simp
next
  case (Suc k)
  have "(f ^^ k) y < n" using funpow_lt [of n f y k] A1 assms(3) by blast
  then show ?case using cl Suc.IH by simp
qed

lemma cycle_inv:
  assumes A1: "\<And>x. x < n \<Longrightarrow> next_idx R L x < n"
    and A2: "\<And>x. x < n \<Longrightarrow> g (next_idx R L x) = x"
    and A3: "\<And>x. x < n \<Longrightarrow> g x < n"
    and inv: "tr_inv (next_idx R L) g n buf0 buf vis"
    and i: "i < n" and unvisited: "\<not> vis ! i"
  shows "\<exists>buf' vis'. cycle R L i buf vis i = Some (buf', vis') \<and>
           tr_inv (next_idx R L) g n buf0 buf' vis' \<and> vis' ! i \<and>
           (\<forall>y<n. vis ! y \<longrightarrow> vis' ! y)"
proof -
  let ?f = "next_idx R L"
  have lenb: "length buf = n" and lenv: "length vis = n"
    and cl: "\<forall>y<n. vis ! y \<longrightarrow> vis ! ?f y"
    and content: "\<And>y. y < n \<Longrightarrow> buf ! y = (if vis ! y then buf0 ! g y else buf0 ! y)"
    using inv by (simp_all add: tr_inv_def)
  have "\<exists>m. 0 < m \<and> (?f ^^ m) i = i"
    using period_exists [of n ?f g i] A1 A2 i by blast
  then obtain m0 where m0: "0 < m0 \<and> (?f ^^ m0) i = i" by blast
  define m where "m = (LEAST m. 0 < m \<and> (?f ^^ m) i = i)"
  have m: "0 < m" "(?f ^^ m) i = i"
    using LeastI [of "\<lambda>m. 0 < m \<and> (?f ^^ m) i = i" m0] m0 unfolding m_def by blast+
  have minimal: "(?f ^^ j) i \<noteq> i" if "0 < j" "j < m" for j
    using not_less_Least [of j "\<lambda>m. 0 < m \<and> (?f ^^ m) i = i"] that unfolding m_def by blast
  let ?O = "\<lambda>y. \<exists>j. 1 \<le> j \<and> j \<le> m \<and> y = (?f ^^ j) i"
  let ?buf' = "fst (cycle_state ?f i buf vis m)"
  let ?vis' = "snd (cycle_state ?f i buf vis m)"
  have run: "cycle R L i buf vis i = Some (?buf', ?vis')"
    using cycle_run [of m R L i 0 buf vis, OF m minimal m(1)] by simp
  have V: "?vis' ! y = (vis ! y \<or> ?O y)" if "y < n" for y
    using cycle_state_visited [of n ?f i vis y buf m, OF A1 i lenv that] by simp
  have B: "?buf' ! y = (if ?O y then buf ! g y else buf ! y)" if "y < n" for y
    using cycle_state_final [of n ?f g i buf m y vis, OF A1 A2 i lenb minimal m that] by simp
  have o1: "\<not> vis ! y" if "?O y" for y
  proof
    assume vy: "vis ! y"
    from that obtain j where j: "1 \<le> j" "j \<le> m" "y = (?f ^^ j) i" by blast
    have yn: "y < n" using j(3) funpow_lt [of n ?f i j] A1 i by blast
    have "vis ! ((?f ^^ (m - j)) y)" using visited_funpow [of n ?f vis y "m - j"] A1 cl yn vy by blast
    moreover have "(?f ^^ (m - j)) y = (?f ^^ m) i"
      using j funpow_add [of "m - j" j ?f] by simp
    ultimately show False using m(2) unvisited by simp
  qed
  have o2: "?O (?f y)" if "?O y" for y
  proof -
    from that obtain j where j: "1 \<le> j" "j \<le> m" "y = (?f ^^ j) i" by blast
    show ?thesis
    proof (cases "j = m")
      case True
      then have "?f y = (?f ^^ 1) i" using j m(2) by simp
      then show ?thesis using m(1) by (intro exI [of _ 1]) simp
    next
      case False
      then have "Suc j \<le> m" using j by simp
      moreover have "?f y = (?f ^^ Suc j) i" using j by simp
      ultimately show ?thesis by (intro exI [of _ "Suc j"]) simp
    qed
  qed
  have o3: "?O (g y)" if "?O y" for y
  proof -
    from that obtain j where j: "1 \<le> j" "j \<le> m" "y = (?f ^^ j) i" by blast
    obtain k where k: "j = Suc k" using j(1) by (cases j) auto
    have kn: "(?f ^^ k) i < n" using funpow_lt [of n ?f i k] A1 i by blast
    have gy: "g y = (?f ^^ k) i" using A2 [OF kn] j(3) k by simp
    show ?thesis
    proof (cases "k = 0")
      case True
      then have "g y = (?f ^^ m) i" using gy m(2) by simp
      then show ?thesis using m(1) by (intro exI [of _ m]) simp
    next
      case False
      then show ?thesis using gy j k by (intro exI [of _ k]) simp
    qed
  qed
  have o4: "?O i" using m by (intro exI [of _ m]) simp
  have len': "length ?buf' = n" "length ?vis' = n"
    using cycle_state_length [of ?f i buf vis m] lenb lenv by simp_all
  have cl': "\<forall>y<n. ?vis' ! y \<longrightarrow> ?vis' ! ?f y"
  proof (intro allI impI)
    fix y assume y: "y < n" and vy: "?vis' ! y"
    have fy: "?f y < n" using A1 y by blast
    from vy V [OF y] have "vis ! y \<or> ?O y" by simp
    then show "?vis' ! ?f y"
    proof
      assume "vis ! y"
      then have "vis ! ?f y" using cl y by blast
      then show ?thesis using V [OF fy] by simp
    next
      assume "?O y"
      then have "?O (?f y)" by (rule o2)
      then show ?thesis using V [OF fy] by simp
    qed
  qed
  have content': "\<forall>y<n. ?buf' ! y = (if ?vis' ! y then buf0 ! g y else buf0 ! y)"
  proof (intro allI impI)
    fix y assume y: "y < n"
    show "?buf' ! y = (if ?vis' ! y then buf0 ! g y else buf0 ! y)"
    proof (cases "?O y")
      case True
      have gy: "g y < n" using A3 y by blast
      have "\<not> vis ! g y" using o1 [OF o3 [OF True]] .
      then have "buf ! g y = buf0 ! g y" using content [OF gy] by simp
      moreover have "(if ?O y then buf ! g y else buf ! y) = buf ! g y" using True by (rule if_P)
      then have "?buf' ! y = buf ! g y" using B [OF y] by (simp only:)
      moreover have "?vis' ! y" using V [OF y] True by blast
      ultimately show ?thesis by simp
    next
      case False
      have "(if ?O y then buf ! g y else buf ! y) = buf ! y" using False by (rule if_not_P)
      then have "?buf' ! y = buf ! y" using B [OF y] by (simp only:)
      moreover have "?vis' ! y = vis ! y" using V [OF y] False by blast
      ultimately show ?thesis using content [OF y] by simp
    qed
  qed
  have inv': "tr_inv ?f g n buf0 ?buf' ?vis'"
    using len' cl' content' by (simp add: tr_inv_def)
  have vi: "?vis' ! i" using V [OF i] o4 by simp
  have mono: "\<forall>y<n. vis ! y \<longrightarrow> ?vis' ! y" using V by simp
  show ?thesis using run inv' vi mono by blast
qed

lemma transpose_loop_inv:
  assumes A1: "\<And>x. x < n \<Longrightarrow> next_idx R L x < n"
    and A2: "\<And>x. x < n \<Longrightarrow> g (next_idx R L x) = x"
    and A3: "\<And>x. x < n \<Longrightarrow> g x < n"
    and "tr_inv (next_idx R L) g n buf0 buf vis"
    and "\<forall>x \<in> set xs. x < n"
  shows "\<exists>buf' vis'. transpose_loop R L xs buf vis = Some (buf', vis') \<and>
           tr_inv (next_idx R L) g n buf0 buf' vis' \<and>
           (\<forall>x \<in> set xs. vis' ! x) \<and> (\<forall>y<n. vis ! y \<longrightarrow> vis' ! y)"
  using assms(4,5)
proof (induction xs arbitrary: buf vis)
  case Nil
  then show ?case by simp
next
  case (Cons i xs)
  have i: "i < n" and xs: "\<forall>x \<in> set xs. x < n" using Cons.prems(2) by simp_all
  show ?case
  proof (cases "vis ! i")
    case True
    from Cons.IH [OF Cons.prems(1) xs] obtain buf' vis'
      where r: "transpose_loop R L xs buf vis = Some (buf', vis')"
        and inv': "tr_inv (next_idx R L) g n buf0 buf' vis'"
        and all: "\<forall>x \<in> set xs. vis' ! x" and mono: "\<forall>y<n. vis ! y \<longrightarrow> vis' ! y"
      by blast
    have "transpose_loop R L (i # xs) buf vis = Some (buf', vis')" using True r by simp
    moreover have "\<forall>x \<in> set (i # xs). vis' ! x" using all mono True i by simp
    ultimately show ?thesis using inv' mono by blast
  next
    case False
    from cycle_inv [of n R L g buf0 buf vis i, OF A1 A2 A3 Cons.prems(1) i False]
    obtain buf1 vis1 where c: "cycle R L i buf vis i = Some (buf1, vis1)"
      and inv1: "tr_inv (next_idx R L) g n buf0 buf1 vis1" and vi: "vis1 ! i"
      and mono1: "\<forall>y<n. vis ! y \<longrightarrow> vis1 ! y"
      by blast
    from Cons.IH [OF inv1 xs] obtain buf' vis'
      where r: "transpose_loop R L xs buf1 vis1 = Some (buf', vis')"
        and inv': "tr_inv (next_idx R L) g n buf0 buf' vis'"
        and all: "\<forall>x \<in> set xs. vis' ! x" and mono: "\<forall>y<n. vis1 ! y \<longrightarrow> vis' ! y"
      by blast
    have "transpose_loop R L (i # xs) buf vis = Some (buf', vis')" using False c r by simp
    moreover have "\<forall>x \<in> set (i # xs). vis' ! x" using all mono vi i by simp
    moreover have "\<forall>y<n. vis ! y \<longrightarrow> vis' ! y" using mono1 mono by blast
    ultimately show ?thesis using inv' by blast
  qed
qed


lemma transpose_buffer:
  assumes n: "2 \<le> R * C" and len: "length buf0 = R * C"
  shows "\<exists>buf' vis'. transpose_loop R (R * C - 1) [1..<R * C] buf0 (replicate (R * C) False)
                        = Some (buf', vis') \<and>
           length buf' = R * C \<and> (\<forall>y<R * C. buf' ! y = buf0 ! next_idx C (R * C - 1) y)"
proof -
  let ?n = "R * C" and ?L = "R * C - 1"
  let ?f = "next_idx R ?L" and ?g = "next_idx C ?L"
  have A1: "\<And>x. x < ?n \<Longrightarrow> ?f x < ?n" using next_idx_lt [OF n] .
  have A2: "\<And>x. x < ?n \<Longrightarrow> ?g (?f x) = x" using next_idx_inverse [OF n] .
  have n': "2 \<le> C * R" using n by (simp add: mult.commute)
  have A3: "\<And>x. x < ?n \<Longrightarrow> ?g x < ?n"
    using next_idx_lt [OF n', of _] by (simp add: mult.commute)
  have inv0: "tr_inv ?f ?g ?n buf0 buf0 (replicate ?n False)"
    using len by (simp add: tr_inv_def)
  have rng: "\<forall>x \<in> set [1..<?n]. x < ?n" by simp
  from transpose_loop_inv [of ?n R ?L ?g buf0 buf0 "replicate ?n False" "[1..<?n]",
      OF A1 A2 A3 inv0 rng]
  obtain buf' vis' where r: "transpose_loop R ?L [1..<?n] buf0 (replicate ?n False) = Some (buf', vis')"
    and inv: "tr_inv ?f ?g ?n buf0 buf' vis'" and all: "\<forall>x \<in> set [1..<?n]. vis' ! x"
    by blast
  have lenb: "length buf' = ?n"
    and content: "\<And>y. y < ?n \<Longrightarrow> buf' ! y = (if vis' ! y then buf0 ! ?g y else buf0 ! y)"
    using inv by (simp_all add: tr_inv_def)
  have g0: "?g 0 = 0" using n by (simp add: next_idx_def)
  have "buf' ! y = buf0 ! ?g y" if y: "y < ?n" for y
  proof (cases "y = 0")
    case True
    then show ?thesis using content [OF y] g0 by simp
  next
    case False
    then have "vis' ! y" using all y by simp
    then show ?thesis using content [OF y] by simp
  qed
  then show ?thesis using r lenb by blast
qed

lemma next_idx_transpose:
  assumes "i < C" "j < R"
  shows "next_idx C (R * C - 1) (R * i + j) = C * j + i"
proof -
  obtain i' where C: "C = Suc (i + i')" using assms(1) less_imp_Suc_add by blast
  obtain j' where R: "R = Suc (j + j')" using assms(2) less_imp_Suc_add by blast
  define L where "L = R * C - 1"
  define x where "x = R * i + j"
  define y where "y = C * j + i"
  have RC: "R * C = Suc L" unfolding L_def C R by simp
  have xL: "x + (R * i' + j') = L"
  proof -
    have "Suc (x + (R * i' + j')) = R * C" unfolding x_def C R by (simp add: algebra_simps)
    then show ?thesis using RC by simp
  qed
  have yL: "y + (C * j' + i') = L"
  proof -
    have "Suc (y + (C * j' + i')) = R * C" unfolding y_def C R by (simp add: algebra_simps)
    then show ?thesis using RC by simp
  qed
  have Rpos: "0 < R" and Cpos: "0 < C" using C R by simp_all
  have xeq: "x = L \<longleftrightarrow> i' = 0 \<and> j' = 0" using xL Rpos by auto
  have yeq: "y = L \<longleftrightarrow> i' = 0 \<and> j' = 0" using yL Cpos by auto
  have Cx: "C * x = L * i + y"
  proof -
    have "C * x = (R * C) * i + C * j" unfolding x_def by (simp add: algebra_simps)
    also have "\<dots> = Suc L * i + C * j" by (simp only: RC)
    also have "\<dots> = L * i + y" unfolding y_def by simp
    finally show ?thesis .
  qed
  have "next_idx C L x = y"
  proof (cases "x = L")
    case True
    then have "y = L" using xeq yeq by simp
    then show ?thesis using True by (simp add: next_idx_def)
  next
    case False
    then have "y \<noteq> L" using xeq yeq by simp
    then have yl: "y < L" using yL by simp
    have "(C * x) mod L = y mod L" by (simp only: Cx mod_mult_self4)
    then show ?thesis using False yl by (simp add: next_idx_def)
  qed
  then show ?thesis by (simp only: L_def x_def y_def)
qed


lemma next_idx_lt1:
  assumes "1 \<le> R * C" "x < R * C"
  shows "next_idx R (R * C - 1) x < R * C"
proof (cases "2 \<le> R * C")
  case True
  then show ?thesis using next_idx_lt assms(2) by blast
next
  case False
  then have "R * C = 1" using assms(1) by linarith
  then have "x = 0" "R * C - 1 = 0" using assms(2) by linarith+
  then show ?thesis by (simp only: next_idx_def if_True \<open>R * C = 1\<close>) simp
qed

lemma next_idx_inverse1:
  assumes "1 \<le> R * C" "x < R * C"
  shows "next_idx C (R * C - 1) (next_idx R (R * C - 1) x) = x"
proof (cases "2 \<le> R * C")
  case True
  then show ?thesis using next_idx_inverse assms(2) by blast
next
  case False
  then have "R * C = 1" using assms(1) by linarith
  then have "x = 0" "R * C - 1 = 0" using assms(2) by linarith+
  then show ?thesis by (simp only: next_idx_def if_True \<open>R * C = 1\<close>) simp
qed

lemma Transpose_result:
  assumes c: "0 < m_cols M" and r: "0 < Rows M"
    and len: "int (length (m_buffer M)) = Rows M * m_cols M"
  shows "\<exists>buf'. Transpose M = Some \<lparr>m_cols = Rows M, m_buffer = buf'\<rparr> \<and>
           length buf' = length (m_buffer M) \<and>
           (\<forall>y<length (m_buffer M).
              buf' ! y = m_buffer M ! next_idx (nat (m_cols M)) (length (m_buffer M) - 1) y)"
proof -
  define R where "R = nat (Rows M)"
  define C where "C = nat (m_cols M)"
  have n: "length (m_buffer M) = R * C"
  proof -
    have "int (R * C) = Rows M * m_cols M" using c r by (simp add: R_def C_def)
    then show ?thesis using len by linarith
  qed
  have "0 < R" "0 < C" using c r by (simp_all add: R_def C_def)
  then have "0 < R * C" by simp
  then have pos: "1 \<le> R * C" by linarith
  have T: "Transpose M =
    (case transpose_loop R (R * C - 1) [1..<R * C] (m_buffer M) (replicate (R * C) False) of
       None \<Rightarrow> None
     | Some (buf', visited') \<Rightarrow> Some \<lparr>m_cols = Rows M, m_buffer = buf'\<rparr>)"
    by (simp add: Transpose_def Let_def n R_def)
  show ?thesis
  proof (cases "2 \<le> R * C")
    case True
    from transpose_buffer [OF True n] obtain buf' vis'
      where "transpose_loop R (R * C - 1) [1..<R * C] (m_buffer M) (replicate (R * C) False)
               = Some (buf', vis')"
        and "length buf' = R * C"
        and "\<forall>y<R * C. buf' ! y = m_buffer M ! next_idx C (R * C - 1) y"
      by blast
    then show ?thesis using T n by (simp add: C_def)
  next
    case False
    then have one: "R * C = 1" using pos by linarith
    have "transpose_loop R (R * C - 1) [1..<R * C] (m_buffer M) (replicate (R * C) False)
            = Some (m_buffer M, replicate (R * C) False)"
      by (simp only: one) simp
    moreover have "\<forall>y<R * C. m_buffer M ! y = m_buffer M ! next_idx C (R * C - 1) y"
      by (simp only: one) (simp add: next_idx_def)
    ultimately show ?thesis using T n by (simp add: C_def)
  qed
qed

lemma Matrix_at_nat:
  assumes "m_cols M = int C" "i < R" "j < C" "length (m_buffer M) = R * C"
  shows "Matrix_at M (int i) (int j) = Some (m_buffer M ! (C * i + j))"
proof -
  have "C * i + j < C * i + C" using assms(3) by simp
  also have "\<dots> = C * Suc i" by simp
  also have "\<dots> \<le> C * R" using assms(2) by (intro mult_le_mono2) simp
  finally have "C * i + j < R * C" by (simp add: mult.commute)
  then have "int C * int i + int j < int (length (m_buffer M))"
    using assms(4) by (metis of_nat_add of_nat_less_iff of_nat_mult)
  moreover have "nat (int C * int i + int j) = C * i + j"
    by (metis nat_int of_nat_add of_nat_mult)
  ultimately show ?thesis using assms(1) by (simp add: Matrix_at_def Columns_def Let_def)
qed

text \<open>
  For a storage \<open>M\<close> of consistent shape with \<open>r\<close> rows and \<open>c\<close> columns, the in-place
  \<open>Transpose()\<close> ends and leaves a matrix with \<open>c\<close> rows and \<open>r\<close> columns whose element
  \<open>(i, j)\<close> is the original element \<open>(j, i)\<close>; applying \<open>Transpose()\<close> to the result
  ends as well and gives back \<open>M\<close> itself.
\<close>

lemma Transpose_correct:
  assumes "Matrix_wf M"
  shows "\<exists>M'. Transpose M = Some M' \<and> Rows M' = Columns M \<and> Columns M' = Rows M \<and>
           (\<forall>i j. 0 \<le> i \<and> i < Columns M \<and> 0 \<le> j \<and> j < Rows M \<longrightarrow>
              Matrix_at M' i j = Matrix_at M j i \<and> Matrix_at M j i \<noteq> None) \<and>
           Transpose M' = Some M"
proof (cases "m_cols M = 0 \<and> m_buffer M = []")
  case True
  have "Transpose M = Some \<lparr>m_cols = 0, m_buffer = []\<rparr>"
    using True by (simp add: Transpose_def Rows_def)
  moreover have M: "M = \<lparr>m_cols = 0, m_buffer = []\<rparr>" using True by simp
  ultimately have t: "Transpose M = Some M" by simp
  have z: "Rows M = 0" "Columns M = 0" using True by (simp_all add: Rows_def Columns_def)
  have "\<forall>i j. 0 \<le> i \<and> i < Columns M \<and> 0 \<le> j \<and> j < Rows M \<longrightarrow>
              Matrix_at M i j = Matrix_at M j i \<and> Matrix_at M j i \<noteq> None"
    using z by auto
  then show ?thesis using t z by (intro exI [of _ M]) simp
next
  case False
  then have c: "0 < m_cols M" and r: "0 < Rows M"
    and len: "int (length (m_buffer M)) = Rows M * m_cols M"
    using assms by (auto simp add: Matrix_wf_def)
  define R where "R = nat (Rows M)"
  define C where "C = nat (m_cols M)"
  have Ri: "Rows M = int R" and Ci: "m_cols M = int C" using c r by (simp_all add: R_def C_def)
  have n: "length (m_buffer M) = R * C"
    using len unfolding Ri Ci by (metis of_nat_eq_iff of_nat_mult)
  have RCpos: "0 < R" "0 < C" using c r by (simp_all add: R_def C_def)
  then have "0 < R * C" by simp
  then have pos: "1 \<le> R * C" by linarith
  from Transpose_result [OF c r len] obtain buf'
    where t: "Transpose M = Some \<lparr>m_cols = Rows M, m_buffer = buf'\<rparr>"
      and lenb: "length buf' = R * C"
      and content: "\<And>y. y < R * C \<Longrightarrow> buf' ! y = m_buffer M ! next_idx C (R * C - 1) y"
    unfolding n C_def [symmetric] by auto
  let ?M' = "\<lparr>m_cols = Rows M, m_buffer = buf'\<rparr>"
  have rows': "Rows ?M' = m_cols M"
    using lenb pos unfolding Ri Ci by (simp add: Rows_def)
  have cols': "Columns ?M' = Rows M" by (simp add: Columns_def)
  have entries: "Matrix_at ?M' i j = Matrix_at M j i \<and> Matrix_at M j i \<noteq> None"
    if h: "0 \<le> i \<and> i < Columns M \<and> 0 \<le> j \<and> j < Rows M" for i j
  proof -
    obtain a where a: "i = int a" "a < C" using h Ci by (metis Columns_def nonneg_int_cases of_nat_less_iff)
    obtain b where b: "j = int b" "b < R" using h Ri by (metis nonneg_int_cases of_nat_less_iff)
    have lenb': "length (m_buffer ?M') = C * R" using lenb by (simp add: mult.commute)
    have "Matrix_at ?M' (int a) (int b) = Some (buf' ! (R * a + b))"
      using Matrix_at_nat [of ?M' R a C b] a b lenb' Ri by simp
    moreover have "R * a + b < R * C"
    proof -
      have "R * a + b < R * a + R" using b by simp
      also have "\<dots> = R * Suc a" by simp
      also have "\<dots> \<le> R * C" using a by (intro mult_le_mono2) simp
      finally show ?thesis .
    qed
    moreover have "next_idx C (R * C - 1) (R * a + b) = C * b + a"
      using next_idx_transpose [of a C b R] a b by simp
    moreover have "Matrix_at M (int b) (int a) = Some (m_buffer M ! (C * b + a))"
      using Matrix_at_nat [of M C b R a] a b n Ci by simp
    ultimately show ?thesis using content a b by simp
  qed
  have c': "0 < m_cols ?M'" and r': "0 < Rows ?M'"
    and len': "int (length (m_buffer ?M')) = Rows ?M' * m_cols ?M'"
    using r c rows' lenb n len by simp_all
  from Transpose_result [OF c' r' len'] obtain buf''
    where t2: "Transpose ?M' = Some \<lparr>m_cols = Rows ?M', m_buffer = buf''\<rparr>"
      and lenb2: "length buf'' = R * C"
      and content2: "\<And>y. y < R * C \<Longrightarrow> buf'' ! y = buf' ! next_idx R (R * C - 1) y"
    using lenb R_def by auto
  have "buf'' = m_buffer M"
  proof (rule nth_equalityI)
    show "length buf'' = length (m_buffer M)" using lenb2 n by simp
  next
    fix y assume "y < length buf''"
    then have y: "y < R * C" using lenb2 by simp
    have fy: "next_idx R (R * C - 1) y < R * C" using next_idx_lt1 [OF pos(1) y] .
    have "buf'' ! y = buf' ! next_idx R (R * C - 1) y" using content2 [OF y] .
    also have "\<dots> = m_buffer M ! next_idx C (R * C - 1) (next_idx R (R * C - 1) y)"
      using content [OF fy] .
    also have "\<dots> = m_buffer M ! y" using next_idx_inverse1 [OF pos(1) y] by simp
    finally show "buf'' ! y = m_buffer M ! y" .
  qed
  then have "Transpose ?M' = Some M" using t2 rows' by simp
  then show ?thesis using t rows' cols' entries by (auto simp add: Columns_def)
qed

lemma Transpose_correct_example:
  "Matrix_wf \<lparr>m_cols = 3, m_buffer = [1, 2, 3, 4, 5, 6 :: real]\<rparr> \<and>
   (\<exists>M'. Transpose \<lparr>m_cols = 3, m_buffer = [1, 2, 3, 4, 5, 6 :: real]\<rparr> = Some M' \<and>
      Rows M' = 3 \<and> Columns M' = 2 \<and> Matrix_at M' 2 1 = Some 6 \<and>
      Transpose M' = Some \<lparr>m_cols = 3, m_buffer = [1, 2, 3, 4, 5, 6]\<rparr>)"
proof -
  let ?M = "\<lparr>m_cols = 3, m_buffer = [1, 2, 3, 4, 5, 6 :: real]\<rparr>"
  have wf: "Matrix_wf ?M" by (simp add: Matrix_wf_def Rows_def)
  have dims: "Rows ?M = 2" "Columns ?M = 3" by (simp_all add: Rows_def Columns_def)
  have e: "Matrix_at ?M 1 2 = Some 6" by (simp add: Matrix_at_def Columns_def)
  from Transpose_correct [OF wf] obtain M' where "Transpose ?M = Some M'"
    and "Rows M' = Columns ?M" and "Columns M' = Rows ?M"
    and "\<And>i j. 0 \<le> i \<and> i < Columns ?M \<and> 0 \<le> j \<and> j < Rows ?M \<Longrightarrow>
           Matrix_at M' i j = Matrix_at ?M j i"
    and "Transpose M' = Some ?M"
    by blast
  moreover from this(4) [of 2 1] have "Matrix_at M' 2 1 = Matrix_at ?M 1 2" using dims by simp
  ultimately show ?thesis using wf dims e by auto
qed

text \<open>
  Claim C5 at the storage that \<open>Matrix(-1, 3)\<close> builds. The constructor clamps the row
  count to \<open>0\<close> and allocates an empty buffer, but resets \<open>cols_\<close> only when
  \<open>row_cnt == 0\<close>, so the storage has \<open>0\<close> rows and \<open>3\<close> columns. The claim gives
  \<open>Transpose()\<close> a result with \<open>3\<close> rows and \<open>0\<close> columns, and the storage back after
  a second \<open>Transpose()\<close>. The code assigns \<open>cols_ = Rows() = 0\<close>: the result has \<open>0\<close>
  rows and \<open>0\<close> columns, and a second \<open>Transpose()\<close> leaves it so, with \<open>cols_ = 0\<close>
  where the storage had \<open>cols_ = 3\<close>.
\<close>

theorem Transpose_negative_row_count:
  "Matrix_new (- 1) 3 v = \<lparr>m_cols = 3, m_buffer = []\<rparr> \<and>
   Rows (Matrix_new (- 1) 3 v) = 0 \<and> Columns (Matrix_new (- 1) 3 v) = 3 \<and>
   Transpose (Matrix_new (- 1) 3 v) = Some \<lparr>m_cols = 0, m_buffer = []\<rparr> \<and>
   Rows \<lparr>m_cols = 0, m_buffer = [] :: 'a list\<rparr> = 0 \<and>
   Columns \<lparr>m_cols = 0, m_buffer = [] :: 'a list\<rparr> = 0 \<and>
   Transpose \<lparr>m_cols = 0, m_buffer = [] :: 'a list\<rparr> = Some \<lparr>m_cols = 0, m_buffer = []\<rparr> \<and>
   \<lparr>m_cols = 0, m_buffer = []\<rparr> \<noteq> Matrix_new (- 1) 3 v"
  by (simp add: Matrix_new_def CorrectSize_def Rows_def Columns_def Transpose_def)

section \<open>Hermitian eigen-iteration\<close>

lemma nat_cell_lt:
  fixes c :: nat
  assumes "i < r" "j < c"
  shows "c * i + j < r * c"
proof -
  have "c * i + j < c * i + c" using assms(2) by simp
  also have "\<dots> = c * Suc i" by simp
  also have "\<dots> \<le> c * r" using assms(1) by (intro mult_le_mono2) simp
  finally show ?thesis by (simp add: mult.commute)
qed

lemma square1_dims:
  assumes "square1 n M" "0 < n"
  shows "Rows1 M = n" "Columns1 M = n"
  using assms by (simp_all add: square1_def Rows1_def Columns1_def)

lemma square1_zero: "square1 n (zero_matrix1 n)"
  by (simp add: square1_def zero_matrix1_def)

lemma square1_at:
  assumes "square1 n M" "0 < n" "i < n" "j < n"
  shows "Matrix1_at M i j = Some (m1_buffer M ! (n * i + j))"
proof -
  have "n * i + j < n * n" using nat_cell_lt [OF assms(3,4)] .
  then show ?thesis using assms(1,2) square1_dims(2) [OF assms(1,2)]
    by (simp add: Matrix1_at_def square1_def Let_def)
qed

lemma square1_set:
  assumes "square1 n M" "0 < n" "i < n" "j < n"
  shows "Matrix1_set M i j v = Some (M\<lparr>m1_buffer := (m1_buffer M)[n * i + j := v]\<rparr>)"
proof -
  have "n * i + j < n * n" using nat_cell_lt [OF assms(3,4)] .
  then show ?thesis using assms(1,2) square1_dims(2) [OF assms(1,2)]
    by (simp add: Matrix1_set_def square1_def Let_def)
qed

lemma zero_matrix1_set:
  assumes "0 < n" "i < n" "j < n"
  shows "Matrix1_set (zero_matrix1 n) i j 0 = Some (zero_matrix1 n :: 'a::zero Matrix1)"
proof -
  have lt: "n * i + j < n * n" using nat_cell_lt [OF assms(2,3)] .
  have "(replicate (n * n) (0::'a))[n * i + j := 0] = replicate (n * n) 0"
    using lt by (intro nth_equalityI) (simp_all add: nth_list_update)
  then show ?thesis
    using square1_set [OF square1_zero assms, of "0::'a"] by (simp add: zero_matrix1_def)
qed

lemma diag_loop_zero:
  assumes "0 < n" "idx + k \<le> n"
  shows "diag_loop (zero_matrix1 n) idx (replicate k 0) = Some (zero_matrix1 n :: 'a::zero Matrix1)"
  using assms(2)
proof (induction k arbitrary: idx)
  case 0
  then show ?case by simp
next
  case (Suc k)
  have "idx < n" using Suc.prems by simp
  then have "Matrix1_set (zero_matrix1 n) idx idx 0 = Some (zero_matrix1 n :: 'a Matrix1)"
    using zero_matrix1_set [OF assms(1)] by blast
  moreover have "diag_loop (zero_matrix1 n) (Suc idx) (replicate k 0) = Some (zero_matrix1 n :: 'a Matrix1)"
    using Suc.IH [of "Suc idx"] Suc.prems by simp
  ultimately show ?case by simp
qed

lemma Identity1_zero:
  assumes "0 < n"
  shows "Identity1 n 0 = Some (zero_matrix1 n :: 'a::zero Matrix1)"
  using diag_loop_zero [OF assms, of 0 n, where ?'a = 'a] assms
  by (simp add: Identity1_def Matrix1_diag_def Rows1_def zero_matrix1_def Let_def)

lemma ApplyToEach1_loop_same:
  assumes "\<And>i. i \<in> set xs \<Longrightarrow> func (buf ! i) (i div cols) (i mod cols) = Some (buf ! i)"
  shows "ApplyToEach1_loop func cols xs buf = Some buf"
  using assms by (induction xs) simp_all

lemma zero_matrix1_at_linear:
  assumes "0 < n" "i < n * n"
  shows "Matrix1_at (zero_matrix1 n) (i div n) (i mod n) = Some (0 :: 'a::zero)"
proof -
  have d: "i div n < n" using assms by (simp add: less_mult_imp_div_less)
  have m: "i mod n < n" using assms(1) by simp
  have e: "n * (i div n) + i mod n = i" by simp
  have "Matrix1_at (zero_matrix1 n :: 'a Matrix1) (i div n) (i mod n)
          = Some (m1_buffer (zero_matrix1 n :: 'a Matrix1) ! (n * (i div n) + i mod n))"
    by (rule square1_at [OF square1_zero assms(1) d m])
  then show ?thesis using assms(2) by (simp only: e) (simp add: zero_matrix1_def)
qed

lemma Matrix1_minus_zero:
  fixes A :: "'a::{zero,minus} Matrix1"
  assumes "square1 n A" "0 < n" and sub0: "\<And>x::'a. x - 0 = x"
  shows "Matrix1_minus A (zero_matrix1 n) = Some A"
proof -
  have dims: "Rows1 A = n" "Columns1 A = n" "Rows1 (zero_matrix1 n :: 'a Matrix1) = n"
    "Columns1 (zero_matrix1 n :: 'a Matrix1) = n"
    using square1_dims [OF assms(1,2)] square1_dims [OF square1_zero assms(2)] by simp_all
  have len: "length (m1_buffer A) = n * n" using assms(1) by (simp add: square1_def)
  have "ApplyToEach1_loop (\<lambda>val i j. map_option (\<lambda>x. val - x) (Matrix1_at (zero_matrix1 n) i j))
          n [0..<n * n] (m1_buffer A) = Some (m1_buffer A)"
  proof (rule ApplyToEach1_loop_same)
    fix i assume "i \<in> set [0..<n * n]"
    then have "i < n * n" by simp
    then have "Matrix1_at (zero_matrix1 n) (i div n) (i mod n) = Some (0::'a)"
      using zero_matrix1_at_linear [OF assms(2)] by blast
    then show "map_option (\<lambda>x. m1_buffer A ! i - x) (Matrix1_at (zero_matrix1 n) (i div n) (i mod n))
                 = Some (m1_buffer A ! i)"
      using sub0 by simp
  qed
  then show ?thesis using dims len assms(2)
    by (simp add: Matrix1_minus_def ApplyToEach1_def)
qed

lemma Matrix1_plus_zero:
  fixes A :: "'a::{zero,plus} Matrix1"
  assumes "square1 n A" "0 < n" and add0: "\<And>x::'a. x + 0 = x"
  shows "Matrix1_plus A (zero_matrix1 n) = Some A"
proof -
  have dims: "Rows1 A = n" "Columns1 A = n" "Rows1 (zero_matrix1 n :: 'a Matrix1) = n"
    "Columns1 (zero_matrix1 n :: 'a Matrix1) = n"
    using square1_dims [OF assms(1,2)] square1_dims [OF square1_zero assms(2)] by simp_all
  have len: "length (m1_buffer A) = n * n" using assms(1) by (simp add: square1_def)
  have "ApplyToEach1_loop (\<lambda>val i j. map_option (\<lambda>x. val + x) (Matrix1_at (zero_matrix1 n) i j))
          n [0..<n * n] (m1_buffer A) = Some (m1_buffer A)"
  proof (rule ApplyToEach1_loop_same)
    fix i assume "i \<in> set [0..<n * n]"
    then have "i < n * n" by simp
    then have "Matrix1_at (zero_matrix1 n) (i div n) (i mod n) = Some (0::'a)"
      using zero_matrix1_at_linear [OF assms(2)] by blast
    then show "map_option (\<lambda>x. m1_buffer A ! i + x) (Matrix1_at (zero_matrix1 n) (i div n) (i mod n))
                 = Some (m1_buffer A ! i)"
      using add0 by simp
  qed
  then show ?thesis using dims len assms(2)
    by (simp add: Matrix1_plus_def ApplyToEach1_def)
qed

lemma mult1_sum_some:
  assumes "square1 n lhs" "square1 n rhs" "0 < n" "i < n" "j < n" "\<forall>k \<in> set ks. k < n"
  shows "\<exists>s. mult1_sum lhs rhs i j ks acc = Some s"
  using assms(6)
proof (induction ks arbitrary: acc)
  case Nil
  then show ?case by simp
next
  case (Cons k ks)
  have k: "k < n" using Cons.prems by simp
  have "Matrix1_at lhs i k = Some (m1_buffer lhs ! (n * i + k))"
    using square1_at [OF assms(1,3,4) k] .
  moreover have "Matrix1_at rhs k j = Some (m1_buffer rhs ! (n * k + j))"
    using square1_at [OF assms(2,3) k assms(5)] .
  ultimately show ?case using Cons.IH Cons.prems by simp
qed

lemma mult1_cells_some:
  assumes "square1 n lhs" "square1 n rhs" "0 < n"
    and "\<forall>p \<in> set ps. fst p < n \<and> snd p < n" "square1 n result"
  shows "\<exists>res. mult1_cells lhs rhs ps result = Some res \<and> square1 n res"
  using assms(4,5)
proof (induction ps arbitrary: result)
  case Nil
  then show ?case by simp
next
  case (Cons p ps)
  obtain i j where p: "p = (i, j)" by (cases p)
  have ij: "i < n" "j < n" using Cons.prems(1) p by simp_all
  have cols: "Columns1 lhs = n" using square1_dims(2) [OF assms(1,3)] .
  obtain s where s: "mult1_sum lhs rhs i j [0..<n] 0 = Some s"
    using mult1_sum_some [OF assms(1,2,3) ij, of "[0..<n]" 0] by auto
  let ?r = "result\<lparr>m1_buffer := (m1_buffer result)[n * i + j := s]\<rparr>"
  have st: "Matrix1_set result i j s = Some ?r"
    using square1_set [OF Cons.prems(2) assms(3) ij] .
  have sq: "square1 n ?r" using Cons.prems(2) by (simp add: square1_def)
  from Cons.IH [OF _ sq] Cons.prems(1)
  obtain res where "mult1_cells lhs rhs ps ?r = Some res" "square1 n res" by auto
  then show ?case using p s st cols by simp
qed

lemma Matrix1_mult_square:
  fixes lhs rhs :: "'a::{zero,plus,times} Matrix1"
  assumes "square1 n lhs" "square1 n rhs" "0 < n"
  shows "\<exists>res. Matrix1_mult lhs rhs = Some res \<and> square1 n res"
proof -
  have dims: "Rows1 lhs = n" "Columns1 lhs = n" "Rows1 rhs = n" "Columns1 rhs = n"
    using square1_dims [OF assms(1,3)] square1_dims [OF assms(2,3)] by simp_all
  have new: "Matrix1_new n n (0::'a) = Some (zero_matrix1 n)"
    using assms(3) by (simp add: Matrix1_new_def Rows1_def Columns1_def zero_matrix1_def)
  have "\<forall>p \<in> set (List.product [0..<n] [0..<n]). fst p < n \<and> snd p < n" by auto
  from mult1_cells_some [OF assms this square1_zero]
  obtain res where "mult1_cells lhs rhs (List.product [0..<n] [0..<n]) (zero_matrix1 n) = Some res"
    "square1 n res" by blast
  then show ?thesis using dims new by (simp add: Matrix1_mult_def)
qed

lemma RoundZeroes1_square: "square1 n M \<Longrightarrow> square1 n (RoundZeroes1 E M)"
  by (simp add: square1_def RoundZeroes1_def)

lemma schur_loop_unshifted:
  fixes copy :: "'a::{zero,plus,minus,times} Matrix1"
  assumes n: "0 < n"
    and qr: "\<And>A. square1 n A \<Longrightarrow> square1 n (fst (HouseholderQR A)) \<and> square1 n (snd (HouseholderQR A))"
    and sub0: "\<And>x::'a. x - 0 = x" and add0: "\<And>x::'a. x + 0 = x"
    and sq: "square1 n copy"
  shows "schur_loop HouseholderQR E (zero_matrix1 n) it_cnt copy
           = unshifted_qr_iteration HouseholderQR E it_cnt copy \<and>
         (\<exists>res. unshifted_qr_iteration HouseholderQR E it_cnt copy = Some res \<and> square1 n res)"
  using sq
proof (induction it_cnt arbitrary: copy)
  case 0
  then show ?case by simp
next
  case (Suc it)
  obtain Q R where QR: "HouseholderQR copy = (Q, R)" by (cases "HouseholderQR copy")
  have sqQ: "square1 n Q" and sqR: "square1 n R" using qr [OF Suc.prems] QR by simp_all
  obtain p where p: "Matrix1_mult R Q = Some p" and sqp: "square1 n p"
    using Matrix1_mult_square [OF sqR sqQ n] by blast
  have m: "Matrix1_minus copy (zero_matrix1 n) = Some copy"
    using Matrix1_minus_zero [OF Suc.prems n sub0] .
  have a: "Matrix1_plus p (zero_matrix1 n) = Some p"
    using Matrix1_plus_zero [OF sqp n add0] .
  have sqr: "square1 n (RoundZeroes1 E p)" using RoundZeroes1_square [OF sqp] .
  show ?case using Suc.IH [OF sqr] QR p m a by simp
qed


text \<open>
  Let \<open>A\<close> be a square matrix with at least two rows that passes the Hermitian check,
  let \<open>HouseholderQR\<close> return square factors of the same size, and let the scalars
  satisfy \<open>x - 0 = x\<close> and \<open>x + 0 = x\<close>. Then the shift matrix \<open>Identity(Rows(), 0)\<close> is
  the zero matrix, and \<open>GetSchurDecomposition(A, it_cnt)\<close> returns what plain unshifted
  QR iteration returns after exactly \<open>it_cnt\<close> iterations, each factoring \<open>A\<close>,
  replacing it by \<open>R Q\<close> and rounding; no assertion fails on the way.
\<close>

lemma GetSchurDecomposition_unshifted:
  fixes matrix :: "'a::{zero,plus,minus,times} Matrix1"
  assumes "IsHermitian matrix" and "square1 n matrix" and "2 \<le> n"
    and "\<And>A. square1 n A \<Longrightarrow>
           square1 n (fst (HouseholderQR A)) \<and> square1 n (snd (HouseholderQR A))"
    and "\<And>x::'a. x - 0 = x" and "\<And>x::'a. x + 0 = x"
  shows "Identity1 (Rows1 matrix) 0 = Some (zero_matrix1 n :: 'a Matrix1) \<and>
         GetSchurDecomposition IsHermitian HouseholderQR E matrix it_cnt
           = unshifted_qr_iteration HouseholderQR E it_cnt matrix \<and>
         (\<exists>res. GetSchurDecomposition IsHermitian HouseholderQR E matrix it_cnt = Some res \<and>
                square1 n res)"
proof -
  have n: "0 < n" using assms(3) by simp
  have dims: "Rows1 matrix = n" "Columns1 matrix = n" using square1_dims [OF assms(2) n] .
  have idn: "Identity1 n 0 = Some (zero_matrix1 n :: 'a Matrix1)" using Identity1_zero [OF n] .
  have sub: "GetSubmatrix_asserts matrix (size_t_sub n 2) n (size_t_sub n 2) n"
    using assms(3) dims by (simp add: GetSubmatrix_asserts_def size_t_sub_def)
  have "GetSchurDecomposition IsHermitian HouseholderQR E matrix it_cnt
          = schur_loop HouseholderQR E (zero_matrix1 n) it_cnt matrix"
    using assms(1) sub dims idn by (simp add: GetSchurDecomposition_def)
  then show ?thesis
    using schur_loop_unshifted [OF n assms(4,5,6,2), where E = E and it_cnt = it_cnt] dims idn
    by simp
qed

lemma GetSchurDecomposition_unshifted_example:
  "IsHermitian1 (real_elements (1 / 1000)) \<lparr>m1_rows = 2, m1_buffer = [2, 1, 1, 2]\<rparr> \<and>
   square1 2 \<lparr>m1_rows = 2, m1_buffer = [2, 1, 1, 2 :: real]\<rparr> \<and>
   GetSchurDecomposition (IsHermitian1 (real_elements (1 / 1000)))
       (\<lambda>A. (\<lparr>m1_rows = 2, m1_buffer = [1, 0, 0, 1]\<rparr>, A)) (real_elements (1 / 1000))
       \<lparr>m1_rows = 2, m1_buffer = [2, 1, 1, 2]\<rparr> 2
     = unshifted_qr_iteration (\<lambda>A. (\<lparr>m1_rows = 2, m1_buffer = [1, 0, 0, 1]\<rparr>, A))
         (real_elements (1 / 1000)) 2 \<lparr>m1_rows = 2, m1_buffer = [2, 1, 1, 2]\<rparr>"
proof -
  let ?E = "real_elements (1 / 1000)"
  let ?M = "\<lparr>m1_rows = 2, m1_buffer = [2, 1, 1, 2 :: real]\<rparr>"
  let ?qr = "\<lambda>A :: real Matrix1. (\<lparr>m1_rows = 2, m1_buffer = [1, 0, 0, 1 :: real]\<rparr>, A)"
  have d: "Rows1 ?M = 2" "Columns1 ?M = 2" by (simp_all add: Rows1_def Columns1_def)
  have u: "[0..<2] = [0, Suc 0]" by (simp add: numeral_2_eq_2)
  have h: "IsHermitian1 ?E ?M" unfolding IsHermitian1_def d u
    by (simp add: Matrix1_at_def d real_elements_def)
  have sq: "square1 2 ?M" by (simp add: square1_def)
  have qr: "\<And>A. square1 2 A \<Longrightarrow> square1 2 (fst (?qr A)) \<and> square1 2 (snd (?qr A))"
    by (simp add: square1_def)
  have two: "(2::nat) \<le> 2" by simp
  have sub0: "\<And>x::real. x - 0 = x" and add0: "\<And>x::real. x + 0 = x" by simp_all
  from GetSchurDecomposition_unshifted [of "IsHermitian1 ?E" ?M 2 ?qr ?E 2, OF h sq two qr sub0 add0]
  show ?thesis using h sq by simp
qed

text \<open>
  Claim C1 at the \<open>1 \<times> 1\<close> matrix \<open>[[5]]\<close>, which is Hermitian. The claim runs
  \<open>it_cnt\<close> iterations of plain QR iteration, one of which returns \<open>[[5]]\<close> here.
  \<open>GetSchurDecomposition\<close> asks for the trailing \<open>2 \<times> 2\<close> minor first, which it never
  uses, with \<open>r_from = Rows() - 2\<close>; for one row the unsigned subtraction wraps around,
  the assertion \<open>r_from < r_to\<close> of \<open>GetSubmatrix\<close> fails, and no iteration runs.
\<close>

theorem GetSchurDecomposition_one_by_one:
  "IsHermitian1 (real_elements (1 / 1000)) \<lparr>m1_rows = 1, m1_buffer = [5]\<rparr> \<and>
   GetSchurDecomposition (IsHermitian1 (real_elements (1 / 1000)))
       (\<lambda>A. (\<lparr>m1_rows = 1, m1_buffer = [1]\<rparr>, A)) (real_elements (1 / 1000))
       \<lparr>m1_rows = 1, m1_buffer = [5]\<rparr> 1 = None \<and>
   unshifted_qr_iteration (\<lambda>A. (\<lparr>m1_rows = 1, m1_buffer = [1]\<rparr>, A)) (real_elements (1 / 1000)) 1
       \<lparr>m1_rows = 1, m1_buffer = [5]\<rparr> = Some \<lparr>m1_rows = 1, m1_buffer = [5]\<rparr>"
  by (simp add: IsHermitian1_def GetSchurDecomposition_def GetSubmatrix_asserts_def size_t_sub_def
      Rows1_def Columns1_def Matrix1_at_def Matrix1_mult_def Matrix1_new_def Matrix1_set_def
      RoundZeroes1_def real_elements_def)

section \<open>Lazy transposition and conjugation of views\<close>

lemma ApplyToEach_loop_eq_True:
  assumes "\<And>i j. (i, j) \<in> set ps \<Longrightarrow>
             \<exists>x. ConstMatrixView_at E V i j = Some x \<and> ConstMatrixView_at E W i j = Some x \<and>
                 IsEqualFloating E x x"
  shows "ApplyToEach_loop E V
           (\<lambda>val i j is_equal.
              case ConstMatrixView_at E W i j of
                None \<Rightarrow> None
              | Some w \<Rightarrow> Some (if \<not> IsEqualFloating E val w then False else is_equal))
           ps True = Some True"
  using assms
proof (induction ps)
  case Nil
  then show ?case by simp
next
  case (Cons p ps)
  obtain i j where p: "p = (i, j)" by (cases p)
  obtain x where x: "ConstMatrixView_at E V i j = Some x" "ConstMatrixView_at E W i j = Some x"
    "IsEqualFloating E x x"
    using Cons.prems [of i j] p by auto
  have "ApplyToEach_loop E V
           (\<lambda>val i j is_equal.
              case ConstMatrixView_at E W i j of
                None \<Rightarrow> None
              | Some w \<Rightarrow> Some (if \<not> IsEqualFloating E val w then False else is_equal))
           ps True = Some True"
    using Cons.prems by (intro Cons.IH) simp
  then show ?case using p x by simp
qed

lemma ConstMatrixView_eq_refl:
  assumes "\<forall>i j. 0 \<le> i \<and> i < vRows V \<and> 0 \<le> j \<and> j < vColumns V \<longrightarrow>
             (\<exists>x. ConstMatrixView_at E V i j = Some x \<and> IsEqualFloating E x x)"
  shows "ConstMatrixView_eq E V V = Some True"
proof -
  have "\<exists>x. ConstMatrixView_at E V i j = Some x \<and> ConstMatrixView_at E V i j = Some x \<and>
            IsEqualFloating E x x"
    if "(i, j) \<in> set (indexes (vRows V) (vColumns V))" for i j
    using that assms by (auto simp add: set_indexes)
  from ApplyToEach_loop_eq_True [of "indexes (vRows V) (vColumns V)" E V V, OF this]
  show ?thesis by (simp add: ConstMatrixView_eq_def ApplyToEach_def)
qed

lemma round_trip_identity:
  "Transposed (Transposed (ConstMatrixView_new M r c st)) = ConstMatrixView_new M r c st \<and>
   Conjugated (Conjugated (ConstMatrixView_new M r c st)) = ConstMatrixView_new M r c st"
  by (cases st) (simp add: Transposed_def Conjugated_def ConstMatrixView_new_def MakeSegment_idem)

text \<open>
  Every view is built by the constructor on the matrix it points to. \<open>Transposed\<close>
  hands the column segment, the row segment and the state with the \<open>transposed\<close> flag
  inverted to the constructor; \<open>Conjugated\<close> does the same and inverts both flags. The
  constructor normalises the segments again, against the axis lengths exchanged by the
  flag, and leaves them as they are. Applying \<open>Transposed\<close> twice, or \<open>Conjugated\<close>
  twice, returns the very same view: the same matrix, segments and state, also for a
  sub-view with offsets over a storage that is not square. When the elements of the
  view can be read and the tolerance comparison accepts each of them as equal to
  itself, \<open>operator==\<close> returns true on the round trip and the view.
\<close>

lemma view_round_trip:
  "Transposed (Transposed (ConstMatrixView_new M r c st)) = ConstMatrixView_new M r c st \<and>
   Conjugated (Conjugated (ConstMatrixView_new M r c st)) = ConstMatrixView_new M r c st \<and>
   v_row (Transposed (ConstMatrixView_new M r c st)) = v_column (ConstMatrixView_new M r c st) \<and>
   v_column (Transposed (ConstMatrixView_new M r c st)) = v_row (ConstMatrixView_new M r c st) \<and>
   v_state (Transposed (ConstMatrixView_new M r c st)) =
     \<lparr>is_transposed = \<not> is_transposed st, is_conjugated = is_conjugated st\<rparr> \<and>
   v_row (Conjugated (ConstMatrixView_new M r c st)) = v_column (ConstMatrixView_new M r c st) \<and>
   v_column (Conjugated (ConstMatrixView_new M r c st)) = v_row (ConstMatrixView_new M r c st) \<and>
   v_state (Conjugated (ConstMatrixView_new M r c st)) =
     \<lparr>is_transposed = \<not> is_transposed st, is_conjugated = \<not> is_conjugated st\<rparr> \<and>
   ((\<forall>i j. 0 \<le> i \<and> i < vRows (ConstMatrixView_new M r c st) \<and>
           0 \<le> j \<and> j < vColumns (ConstMatrixView_new M r c st) \<longrightarrow>
           (\<exists>x. ConstMatrixView_at E (ConstMatrixView_new M r c st) i j = Some x \<and>
                IsEqualFloating E x x)) \<longrightarrow>
    ConstMatrixView_eq E (Transposed (Transposed (ConstMatrixView_new M r c st)))
      (ConstMatrixView_new M r c st) = Some True \<and>
    ConstMatrixView_eq E (Conjugated (Conjugated (ConstMatrixView_new M r c st)))
      (ConstMatrixView_new M r c st) = Some True)"
proof -
  let ?V = "ConstMatrixView_new M r c st"
  have id: "Transposed (Transposed ?V) = ?V" "Conjugated (Conjugated ?V) = ?V"
    using round_trip_identity [of M r c st] by simp_all
  have segs: "v_row (Transposed ?V) = v_column ?V" "v_column (Transposed ?V) = v_row ?V"
    "v_state (Transposed ?V) = \<lparr>is_transposed = \<not> is_transposed st, is_conjugated = is_conjugated st\<rparr>"
    "v_row (Conjugated ?V) = v_column ?V" "v_column (Conjugated ?V) = v_row ?V"
    "v_state (Conjugated ?V) = \<lparr>is_transposed = \<not> is_transposed st, is_conjugated = \<not> is_conjugated st\<rparr>"
    by (cases st, simp add: Transposed_def Conjugated_def ConstMatrixView_new_def MakeSegment_idem)+
  have eq: "ConstMatrixView_eq E (Transposed (Transposed ?V)) ?V = Some True \<and>
            ConstMatrixView_eq E (Conjugated (Conjugated ?V)) ?V = Some True"
    if "\<forall>i j. 0 \<le> i \<and> i < vRows ?V \<and> 0 \<le> j \<and> j < vColumns ?V \<longrightarrow>
             (\<exists>x. ConstMatrixView_at E ?V i j = Some x \<and> IsEqualFloating E x x)"
    using ConstMatrixView_eq_refl [OF that] id by simp
  show ?thesis using id segs eq by blast
qed

lemma view_round_trip_example:
  "ConstMatrixView_eq (real_elements (1 / 1000))
     (Transposed (Transposed (ConstMatrixView_new \<lparr>m_cols = 3, m_buffer = [1, 2, 3, 4, 5, 6]\<rparr>
        \<lparr>seg_begin = 1, seg_end = 2\<rparr> \<lparr>seg_begin = 1, seg_end = 3\<rparr>
        \<lparr>is_transposed = False, is_conjugated = False\<rparr>)))
     (ConstMatrixView_new \<lparr>m_cols = 3, m_buffer = [1, 2, 3, 4, 5, 6]\<rparr>
        \<lparr>seg_begin = 1, seg_end = 2\<rparr> \<lparr>seg_begin = 1, seg_end = 3\<rparr>
        \<lparr>is_transposed = False, is_conjugated = False\<rparr>) = Some True"
proof -
  let ?E = "real_elements (1 / 1000)"
  let ?V = "ConstMatrixView_new \<lparr>m_cols = 3, m_buffer = [1, 2, 3, 4, 5, 6 :: real]\<rparr>
        \<lparr>seg_begin = 1, seg_end = 2\<rparr> \<lparr>seg_begin = 1, seg_end = 3\<rparr>
        \<lparr>is_transposed = False, is_conjugated = False\<rparr>"
  have V: "?V = \<lparr>v_ptr = \<lparr>m_cols = 3, m_buffer = [1, 2, 3, 4, 5, 6 :: real]\<rparr>,
                 v_row = \<lparr>seg_begin = 1, seg_end = 2\<rparr>, v_column = \<lparr>seg_begin = 1, seg_end = 3\<rparr>,
                 v_state = \<lparr>is_transposed = False, is_conjugated = False\<rparr>\<rparr>"
    by (simp add: ConstMatrixView_new_def MakeSegment_def Rows_def Columns_def)
  have dims: "vRows ?V = 1" "vColumns ?V = 2" unfolding V by (simp_all add: vRows_def vColumns_def)
  have rd: "\<forall>i j. 0 \<le> i \<and> i < vRows ?V \<and> 0 \<le> j \<and> j < vColumns ?V \<longrightarrow>
             (\<exists>x. ConstMatrixView_at ?E ?V i j = Some x \<and> IsEqualFloating ?E x x)"
  proof (intro allI impI)
    fix i j :: int
    assume h: "0 \<le> i \<and> i < vRows ?V \<and> 0 \<le> j \<and> j < vColumns ?V"
    then have i: "i = 0" and j: "j = 0 \<or> j = 1" using dims by auto
    from j show "\<exists>x. ConstMatrixView_at ?E ?V i j = Some x \<and> IsEqualFloating ?E x x"
      unfolding V i
      by (auto simp add: ConstMatrixView_at_def Matrix_at_def Columns_def real_elements_def Let_def)
  qed
  from view_round_trip [of "\<lparr>m_cols = 3, m_buffer = [1, 2, 3, 4, 5, 6 :: real]\<rparr>"
      "\<lparr>seg_begin = 1, seg_end = 2\<rparr>" "\<lparr>seg_begin = 1, seg_end = 3\<rparr>"
      "\<lparr>is_transposed = False, is_conjugated = False\<rparr>" ?E] rd
  show ?thesis by blast
qed

text \<open>
  Claim C6 at a sub-view with an offset over a storage that is not square. The matrix
  is \<open>[[1,2,3],[4,5,6]]\<close> and \<open>V\<close> is row \<open>2\<close> of its transposed view, the last of its
  three rows: the row segment is \<open>[2, 3)\<close>, the column segment \<open>[0, 2)\<close> and
  \<open>transposed\<close> is set. \<open>Transposed(Transposed(V))\<close> and \<open>Conjugated(Conjugated(V))\<close>
  have the segments and the state of \<open>V\<close>. The claim makes \<open>operator==\<close> true on either
  and \<open>V\<close>. \<open>operator==\<close> reads the element \<open>(0, 0)\<close> of its left operand first, which
  the element read of the view takes from \<open>(*ptr_)(row_.begin + 0, column_.begin + 0)\<close>,
  the element \<open>(2, 0)\<close> of a matrix with two rows: the linear index is \<open>6\<close>, the buffer
  has \<open>6\<close> elements, the assertion of \<open>Matrix::operator()\<close> fails, and \<open>operator==\<close>
  returns nothing.
\<close>

theorem round_trip_unreadable:
  "GetRow (Transposed (View \<lparr>m_cols = 3, m_buffer = [1, 2, 3, 4, 5, 6 :: real]\<rparr>)) 2
     = Some \<lparr>v_ptr = \<lparr>m_cols = 3, m_buffer = [1, 2, 3, 4, 5, 6]\<rparr>,
             v_row = \<lparr>seg_begin = 2, seg_end = 3\<rparr>, v_column = \<lparr>seg_begin = 0, seg_end = 2\<rparr>,
             v_state = \<lparr>is_transposed = True, is_conjugated = False\<rparr>\<rparr> \<and>
   Transposed (Transposed
     \<lparr>v_ptr = \<lparr>m_cols = 3, m_buffer = [1, 2, 3, 4, 5, 6 :: real]\<rparr>,
      v_row = \<lparr>seg_begin = 2, seg_end = 3\<rparr>, v_column = \<lparr>seg_begin = 0, seg_end = 2\<rparr>,
      v_state = \<lparr>is_transposed = True, is_conjugated = False\<rparr>\<rparr>)
     = \<lparr>v_ptr = \<lparr>m_cols = 3, m_buffer = [1, 2, 3, 4, 5, 6]\<rparr>,
        v_row = \<lparr>seg_begin = 2, seg_end = 3\<rparr>, v_column = \<lparr>seg_begin = 0, seg_end = 2\<rparr>,
        v_state = \<lparr>is_transposed = True, is_conjugated = False\<rparr>\<rparr> \<and>
   ConstMatrixView_at E
     \<lparr>v_ptr = \<lparr>m_cols = 3, m_buffer = [1, 2, 3, 4, 5, 6 :: real]\<rparr>,
      v_row = \<lparr>seg_begin = 2, seg_end = 3\<rparr>, v_column = \<lparr>seg_begin = 0, seg_end = 2\<rparr>,
      v_state = \<lparr>is_transposed = True, is_conjugated = False\<rparr>\<rparr> 0 0 = None \<and>
   ConstMatrixView_eq E
     (Transposed (Transposed
        \<lparr>v_ptr = \<lparr>m_cols = 3, m_buffer = [1, 2, 3, 4, 5, 6 :: real]\<rparr>,
         v_row = \<lparr>seg_begin = 2, seg_end = 3\<rparr>, v_column = \<lparr>seg_begin = 0, seg_end = 2\<rparr>,
         v_state = \<lparr>is_transposed = True, is_conjugated = False\<rparr>\<rparr>))
     \<lparr>v_ptr = \<lparr>m_cols = 3, m_buffer = [1, 2, 3, 4, 5, 6 :: real]\<rparr>,
      v_row = \<lparr>seg_begin = 2, seg_end = 3\<rparr>, v_column = \<lparr>seg_begin = 0, seg_end = 2\<rparr>,
      v_state = \<lparr>is_transposed = True, is_conjugated = False\<rparr>\<rparr> = None \<and>
   ConstMatrixView_eq E
     (Conjugated (Conjugated
        \<lparr>v_ptr = \<lparr>m_cols = 3, m_buffer = [1, 2, 3, 4, 5, 6 :: real]\<rparr>,
         v_row = \<lparr>seg_begin = 2, seg_end = 3\<rparr>, v_column = \<lparr>seg_begin = 0, seg_end = 2\<rparr>,
         v_state = \<lparr>is_transposed = True, is_conjugated = False\<rparr>\<rparr>))
     \<lparr>v_ptr = \<lparr>m_cols = 3, m_buffer = [1, 2, 3, 4, 5, 6 :: real]\<rparr>,
      v_row = \<lparr>seg_begin = 2, seg_end = 3\<rparr>, v_column = \<lparr>seg_begin = 0, seg_end = 2\<rparr>,
      v_state = \<lparr>is_transposed = True, is_conjugated = False\<rparr>\<rparr> = None"
proof -
  let ?V = "\<lparr>v_ptr = \<lparr>m_cols = 3, m_buffer = [1, 2, 3, 4, 5, 6 :: real]\<rparr>,
      v_row = \<lparr>seg_begin = 2, seg_end = 3\<rparr>, v_column = \<lparr>seg_begin = 0, seg_end = 2\<rparr>,
      v_state = \<lparr>is_transposed = True, is_conjugated = False\<rparr>\<rparr>"
  have gr: "GetRow (Transposed (View \<lparr>m_cols = 3, m_buffer = [1, 2, 3, 4, 5, 6 :: real]\<rparr>)) 2 = Some ?V"
    by (simp add: GetRow_def Transposed_def View_def ConstMatrixView_new_def MakeSegment_def
        Rows_def Columns_def vRows_def Let_def)
  have tt: "Transposed (Transposed ?V) = ?V"
    by (simp add: Transposed_def ConstMatrixView_new_def MakeSegment_def Rows_def Columns_def Let_def)
  have cc: "Conjugated (Conjugated ?V) = ?V"
    by (simp add: Conjugated_def ConstMatrixView_new_def MakeSegment_def Rows_def Columns_def Let_def)
  have rd: "ConstMatrixView_at E ?V 0 0 = None"
    by (simp add: ConstMatrixView_at_def Matrix_at_def Columns_def Let_def)
  have idx: "indexes (vRows ?V) (vColumns ?V) = [(0, 0), (0, 1)]"
    by (simp add: indexes_def vRows_def vColumns_def numeral_2_eq_2)
  have eq: "ConstMatrixView_eq E ?V ?V = None"
    unfolding ConstMatrixView_eq_def ApplyToEach_def idx using rd by simp
  show ?thesis unfolding tt cc using gr rd eq by simp
qed

theorem round_trip_unreadable_witness:
  "ConstMatrixView_eq (real_elements (1 / 1000))
     (Transposed (Transposed
        \<lparr>v_ptr = \<lparr>m_cols = 3, m_buffer = [1, 2, 3, 4, 5, 6 :: real]\<rparr>,
         v_row = \<lparr>seg_begin = 2, seg_end = 3\<rparr>, v_column = \<lparr>seg_begin = 0, seg_end = 2\<rparr>,
         v_state = \<lparr>is_transposed = True, is_conjugated = False\<rparr>\<rparr>))
     \<lparr>v_ptr = \<lparr>m_cols = 3, m_buffer = [1, 2, 3, 4, 5, 6 :: real]\<rparr>,
      v_row = \<lparr>seg_begin = 2, seg_end = 3\<rparr>, v_column = \<lparr>seg_begin = 0, seg_end = 2\<rparr>,
      v_state = \<lparr>is_transposed = True, is_conjugated = False\<rparr>\<rparr> = None"
  using round_trip_unreadable [of "real_elements (1 / 1000)"] by blast

section \<open>Bidiagonal QR sweep\<close>








end
